theory Spec2Isabelle
  imports Main
begin

section \<open>The object pool of \<open>src/index.ts\<close> (class Pool) and its successor (class Nage)\<close>

text \<open>
  The repository holds two versions of one class: \<open>Pool\<close> in \<open>src/index.ts\<close> and
  \<open>Nage\<close> in the second source file. Their methods \<open>generate\<close>, \<open>reserve\<close> and
  \<open>release\<close> are the same text; \<open>Pool\<close> has \<open>clear\<close> in addition, \<open>Nage\<close> has the
  field \<open>initialSize\<close>, the prepopulation loop of the constructor and \<open>reset\<close>.
  The model is a record for \<open>Pool\<close>, extended by \<open>initialSize\<close> for \<open>Nage\<close>; the shared
  methods are defined once, on every extension of the \<open>Pool\<close> record.
\<close>

subsection \<open>JavaScript values, exceptions, the heap\<close>

text \<open>
  A JavaScript value is a primitive or a reference. Reference-typed values (objects,
  arrays, functions returned by a factory) are \<open>JObject r\<close>, with \<open>r\<close> the address that
  gives the value its identity. Numbers are the integral ones and \<open>NaN\<close>; symbols and
  bigints are left out.
\<close>

type_synonym ref = nat

datatype jsval =
    JUndefined
  | JNull
  | JBoolean bool
  | JNumber int
  | JNaN
  | JString string
  | JObject ref

text \<open>
  What a call can throw: \<open>Error msg\<close> is \<open>new Error(msg)\<close> raised by the pool's own
  \<open>throw\<close> statements, \<open>TypeError\<close> is what \<open>WeakMap.prototype.set\<close> raises on a key that
  is not an object, and \<open>Thrown v\<close> is a value thrown by the caller's factory or hook,
  which the pool lets through unchanged.
\<close>

datatype exn = Error string | TypeError | Thrown jsval

text \<open>
  The factory and the hooks are closures of the caller. They run on the caller's world
  \<open>'w\<close> and either return a value (\<open>Inr\<close>) or throw one (\<open>Inl\<close>), in both cases with the
  world they leave behind. They do not reach the pool that calls them: a hook that
  re-enters the pool is outside this model.
\<close>

type_synonym 'w Creator = "'w \<Rightarrow> (jsval + jsval) \<times> 'w"
type_synonym 'w Handler = "jsval \<Rightarrow> 'w \<Rightarrow> (jsval + jsval) \<times> 'w"

text \<open>The heap hands out fresh addresses: \<open>nextRef\<close> is the first unused one.\<close>

record heap =
  nextRef :: ref

text \<open>\<open>function getEmptyObject() { return {}; }\<close>: a new object at a fresh address.\<close>

definition getEmptyObject :: "'u heap_scheme Creator" where
  "getEmptyObject h = (Inr (JObject (nextRef h)), h\<lparr>nextRef := Suc (nextRef h)\<rparr>)"

text \<open>Truthiness (\<open>ToBoolean\<close>) and strict equality (\<open>===\<close>, under which \<open>NaN\<close> differs from itself).\<close>

fun truthy :: "jsval \<Rightarrow> bool" where
  "truthy JUndefined = False"
| "truthy JNull = False"
| "truthy (JBoolean b) = b"
| "truthy (JNumber n) = (n \<noteq> 0)"
| "truthy JNaN = False"
| "truthy (JString s) = (s \<noteq> [])"
| "truthy (JObject r) = True"

definition strict_eq :: "jsval \<Rightarrow> jsval \<Rightarrow> bool" where
  "strict_eq a b \<longleftrightarrow> a = b \<and> a \<noteq> JNaN"

text \<open>
  \<open>Array.prototype.indexOf\<close>: the first index whose element is strictly equal to the
  value searched for, \<open>-1\<close> when there is none.
\<close>

fun indexOf_from :: "jsval list \<Rightarrow> jsval \<Rightarrow> int \<Rightarrow> int" where
  "indexOf_from [] x i = - 1"
| "indexOf_from (y # ys) x i = (if strict_eq y x then i else indexOf_from ys x (i + 1))"

definition indexOf :: "jsval list \<Rightarrow> jsval \<Rightarrow> int" where
  "indexOf xs x = indexOf_from xs x 0"

text \<open>
  \<open>WeakMap<Entry, string>\<close>: keyed by the identity of objects. \<open>get\<close> of a key that is
  not an object, or not in the map, is \<open>undefined\<close> (\<open>None\<close>); \<open>set\<close> of a key that is
  not an object throws a \<open>TypeError\<close>. Reclamation of unreachable keys is not modelled.
\<close>

type_synonym WeakMap = "ref \<rightharpoonup> string"

fun WeakMap_get :: "WeakMap \<Rightarrow> jsval \<Rightarrow> string option" where
  "WeakMap_get m (JObject r) = m r"
| "WeakMap_get m _ = None"

fun WeakMap_set :: "WeakMap \<Rightarrow> jsval \<Rightarrow> string \<Rightarrow> exn + WeakMap" where
  "WeakMap_set m (JObject r) v = Inr (m(r \<mapsto> v))"
| "WeakMap_set m _ v = Inl TypeError"

subsection \<open>The pool\<close>

text \<open>
  The fields of \<open>class Pool\<close>. \<open>onRelease\<close> and \<open>onReserve\<close> are \<open>None\<close> while the
  constructor has not assigned them. \<open>stack\<close> is the array, its last element the top.
  \<open>frozen\<close> records \<open>Object.freeze(this)\<close>, which no method of the class is affected by:
  they mutate the array and the map, never a field of the pool.
\<close>

record 'w Pool =
  entries :: WeakMap
  name :: string
  create :: "'w Creator"
  onRelease :: "'w Handler option"
  onReserve :: "'w Handler option"
  stack :: "jsval list"
  frozen :: bool

text \<open>
  \<open>class Nage\<close> adds \<open>initialSize: number\<close>: the integral numbers here, negative ones
  included; fractions, \<open>NaN\<close> and the infinities are outside the model.
\<close>

record 'w Nage = "'w Pool" +
  initialSize :: int

text \<open>\<open>get size() { return this.stack.length; }\<close>\<close>

definition size_pool :: "('w, 'z) Pool_scheme \<Rightarrow> nat" where
  "size_pool p = length (stack p)"

text \<open>
  A method runs on the pool and the world and leaves both behind, also when it throws:
  the result is \<open>Inl\<close> of the exception or \<open>Inr\<close> of the returned value, with the state
  at that moment.
\<close>

text \<open>
  \<open>generate() { const entry = this.create(); this.entries.set(entry, this.name); return entry; }\<close>
\<close>

definition generate ::
  "('w, 'z) Pool_scheme \<times> 'w \<Rightarrow> (exn + jsval) \<times> ('w, 'z) Pool_scheme \<times> 'w" where
  "generate = (\<lambda>(p, w).
     case create p w of
       (Inl v, w') \<Rightarrow> (Inl (Thrown v), p, w')
     | (Inr entry, w') \<Rightarrow>
         (case WeakMap_set (entries p) entry (name p) of
            Inl e \<Rightarrow> (Inl e, p, w')
          | Inr m \<Rightarrow> (Inr entry, p\<lparr>entries := m\<rparr>, w')))"

text \<open>
  \<open>reserve()\<close>: \<open>stack.length ? stack.pop() : this.generate()\<close>, then the hook if there
  is one, called with the reserved entry. The hook is the one read from the pool at
  the start, \<open>const { onReserve, stack } = this\<close>.
\<close>

definition reserve ::
  "('w, 'z) Pool_scheme \<times> 'w \<Rightarrow> (exn + jsval) \<times> ('w, 'z) Pool_scheme \<times> 'w" where
  "reserve = (\<lambda>(p, w).
     case (if length (stack p) \<noteq> 0
           then (Inr (last (stack p)), p\<lparr>stack := butlast (stack p)\<rparr>, w)
           else generate (p, w)) of
       (Inl e, s) \<Rightarrow> (Inl e, s)
     | (Inr reserved, p', w') \<Rightarrow>
         (case onReserve p of
            None \<Rightarrow> (Inr reserved, p', w')
          | Some hook \<Rightarrow>
              (case hook reserved w' of
                 (Inl v, w'') \<Rightarrow> (Inl (Thrown v), p', w'')
               | (Inr _, w'') \<Rightarrow> (Inr reserved, p', w''))))"

text \<open>
  \<open>release(entry)\<close>: the ownership check; then, only when the entry is not in the stack,
  the hook if there is one, and the push.
\<close>

abbreviation OwnershipError :: exn where
  "OwnershipError \<equiv> Error ''Object passed is not part of this pool.''"

definition release ::
  "jsval \<Rightarrow> ('w, 'z) Pool_scheme \<times> 'w \<Rightarrow> (exn + unit) \<times> ('w, 'z) Pool_scheme \<times> 'w" where
  "release entry = (\<lambda>(p, w).
     if WeakMap_get (entries p) entry \<noteq> Some (name p) then (Inl OwnershipError, p, w)
     else if indexOf (stack p) entry = - 1 then
       (case onRelease p of
          None \<Rightarrow> (Inr (), p\<lparr>stack := stack p @ [entry]\<rparr>, w)
        | Some hook \<Rightarrow>
            (case hook entry w of
               (Inl v, w') \<Rightarrow> (Inl (Thrown v), p, w')
             | (Inr _, w') \<Rightarrow> (Inr (), p\<lparr>stack := stack p @ [entry]\<rparr>, w')))
     else (Inr (), p, w))"

text \<open>\<open>clear() { this.stack.length = 0; }\<close> (class Pool only)\<close>

definition clear ::
  "('w, 'z) Pool_scheme \<times> 'w \<Rightarrow> (exn + unit) \<times> ('w, 'z) Pool_scheme \<times> 'w" where
  "clear = (\<lambda>(p, w). (Inr (), p\<lparr>stack := []\<rparr>, w))"

text \<open>
  The loop of the constructor and of \<open>reset\<close>:
  \<open>for (let index = 0; index < initialSize; ++index) { this.stack.push(this.generate()); }\<close>
  from the value \<open>index\<close> on. The bound \<open>n\<close> is the constructor's parameter
  \<open>initialSize\<close>; \<open>reset\<close> reads the field \<open>this.initialSize\<close> at each round, which
  holds the same number throughout, since no method assigns it.
\<close>

function populate ::
  "int \<Rightarrow> int \<Rightarrow> ('w, 'z) Pool_scheme \<times> 'w \<Rightarrow> (exn + unit) \<times> ('w, 'z) Pool_scheme \<times> 'w" where
  "populate n index (p, w) =
     (if index < n then
        (case generate (p, w) of
           (Inl e, s) \<Rightarrow> (Inl e, s)
         | (Inr entry, p', w') \<Rightarrow> populate n (index + 1) (p'\<lparr>stack := stack p' @ [entry]\<rparr>, w'))
      else (Inr (), p, w))"
  by pat_completeness auto
termination
  by (relation "measure (\<lambda>(n, index, s). nat (n - index))") auto

declare populate.simps [simp del]

text \<open>
  \<open>reset()\<close> (class Nage only): \<open>stack.length = 0\<close>, then the loop when
  \<open>this.initialSize\<close> is truthy.
\<close>

definition reset ::
  "('w, 'z) Nage_scheme \<times> 'w \<Rightarrow> (exn + unit) \<times> ('w, 'z) Nage_scheme \<times> 'w" where
  "reset = (\<lambda>(p, w).
     let p0 = p\<lparr>stack := []\<rparr>
     in if initialSize p0 \<noteq> 0 then populate (initialSize p0) 0 (p0, w) else (Inr (), p0, w))"

subsection \<open>Construction\<close>

text \<open>
  A property of the options object is a callable (\<open>typeof x === 'function'\<close>) or any
  other value; \<open>Val JUndefined\<close> is a property that is absent or \<open>undefined\<close>, for which
  destructuring takes the default. \<open>Val (JObject r)\<close> is an object that is not callable.
\<close>

datatype 'f propval = Fn 'f | Val jsval

fun is_function :: "'f propval \<Rightarrow> bool" where
  "is_function (Fn f) = True"
| "is_function (Val v) = False"

fun truthy_prop :: "'f propval \<Rightarrow> bool" where
  "truthy_prop (Fn f) = True"
| "truthy_prop (Val v) = truthy v"

fun default_prop :: "'f \<Rightarrow> 'f propval \<Rightarrow> 'f propval" where
  "default_prop d (Val JUndefined) = Fn d"
| "default_prop d x = x"

record 'w Options =
  opt_create :: "'w Creator propval"
  opt_initialSize :: "int option"
  opt_onRelease :: "'w Handler propval"
  opt_onReserve :: "'w Handler propval"

text \<open>\<open>const EMPTY_OBJECT = {};\<close>\<close>

definition EMPTY_OBJECT :: "'w Options" where
  "EMPTY_OBJECT =
     \<lparr>opt_create = Val JUndefined, opt_initialSize = None,
      opt_onRelease = Val JUndefined, opt_onReserve = Val JUndefined\<rparr>"

text \<open>Decimal rendering of a number in a template string.\<close>

fun digits :: "nat \<Rightarrow> string" where
  "digits n =
     (if n < 10 then [''0123456789'' ! n]
      else digits (n div 10) @ [''0123456789'' ! (n mod 10)])"

declare digits.simps [simp del]

text \<open>
  \<open>`pool_${timeBasis++}_${(Math.random() * 1e9) >>> 0}`\<close>, and the same with \<open>nage_\<close>.
  \<open>rnd\<close> is the value of \<open>(Math.random() * 1e9) >>> 0\<close>.
\<close>

definition pool_name :: "string \<Rightarrow> nat \<Rightarrow> nat \<Rightarrow> string" where
  "pool_name prefix timeBasis rnd = prefix @ digits timeBasis @ ''_'' @ digits rnd"

text \<open>
  The validation of one hook:
  \<open>if (hook) { if (typeof hook === 'function') { this.hook = hook; } else if (DEV) { throw ... } }\<close>
  gives the exception or what the field holds afterwards.
\<close>

definition check_hook :: "bool \<Rightarrow> string \<Rightarrow> 'f propval \<Rightarrow> exn + 'f option" where
  "check_hook DEV message hook =
     (if truthy_prop hook then
        (case hook of
           Fn f \<Rightarrow> Inr (Some f)
         | Val v \<Rightarrow> if DEV then Inl (Error message) else Inr None)
      else Inr None)"

text \<open>
  \<open>new Pool(options)\<close> of \<open>src/index.ts\<close>. \<open>DEV\<close> is the build mode, \<open>timeBasis\<close> the
  module's counter, which the constructor increments before any check. The options
  are \<open>None\<close> when the argument is \<open>undefined\<close>, and default to \<open>EMPTY_OBJECT\<close>.
  A constructor that throws leaves no pool behind.
\<close>

definition Pool_constructor ::
  "bool \<Rightarrow> nat \<Rightarrow> 'u heap_scheme Options option \<Rightarrow> nat \<times> 'u heap_scheme
     \<Rightarrow> (exn + 'u heap_scheme Pool) \<times> nat \<times> 'u heap_scheme" where
  "Pool_constructor DEV rnd options = (\<lambda>(timeBasis, h).
     let opts = (case options of None \<Rightarrow> EMPTY_OBJECT | Some given \<Rightarrow> given);
         name0 = pool_name ''pool_'' timeBasis rnd;
         timeBasis' = timeBasis + 1
     in case default_prop getEmptyObject (opt_create opts) of
          Val v \<Rightarrow> (Inl (Error ''create must be a function''), timeBasis', h)
        | Fn create_fn \<Rightarrow>
            (case check_hook DEV ''onRelease must be a function'' (opt_onRelease opts) of
               Inl e \<Rightarrow> (Inl e, timeBasis', h)
             | Inr on_release \<Rightarrow>
                 (case check_hook DEV ''onReserve must be a function'' (opt_onReserve opts) of
                    Inl e \<Rightarrow> (Inl e, timeBasis', h)
                  | Inr on_reserve \<Rightarrow>
                      (Inr \<lparr>entries = Map.empty, name = name0, create = create_fn,
                            onRelease = on_release, onReserve = on_reserve,
                            stack = [], frozen = DEV\<rparr>,
                       timeBasis', h))))"

text \<open>\<open>function createPool(options) { return new Pool(options); }\<close>\<close>

definition createPool ::
  "bool \<Rightarrow> nat \<Rightarrow> 'u heap_scheme Options option \<Rightarrow> nat \<times> 'u heap_scheme
     \<Rightarrow> (exn + 'u heap_scheme Pool) \<times> nat \<times> 'u heap_scheme" where
  "createPool = Pool_constructor"

text \<open>
  \<open>new Nage(options)\<close>: as above, with \<open>initialSize = 0\<close> by default and the
  prepopulation \<open>if (initialSize) { for ... }\<close> between the hooks and the freeze.
  The record is the object as it stands when the checks have passed; the loop runs on
  it, and an exception of the loop ends the construction.
\<close>

definition Nage_constructor ::
  "bool \<Rightarrow> nat \<Rightarrow> 'u heap_scheme Options option \<Rightarrow> nat \<times> 'u heap_scheme
     \<Rightarrow> (exn + 'u heap_scheme Nage) \<times> nat \<times> 'u heap_scheme" where
  "Nage_constructor DEV rnd options = (\<lambda>(timeBasis, h).
     let opts = (case options of None \<Rightarrow> EMPTY_OBJECT | Some given \<Rightarrow> given);
         initialSize0 = (case opt_initialSize opts of None \<Rightarrow> 0 | Some n \<Rightarrow> n);
         name0 = pool_name ''nage_'' timeBasis rnd;
         timeBasis' = timeBasis + 1
     in case default_prop getEmptyObject (opt_create opts) of
          Val v \<Rightarrow> (Inl (Error ''create must be a function''), timeBasis', h)
        | Fn create_fn \<Rightarrow>
            (case check_hook DEV ''onRelease must be a function'' (opt_onRelease opts) of
               Inl e \<Rightarrow> (Inl e, timeBasis', h)
             | Inr on_release \<Rightarrow>
                 (case check_hook DEV ''onReserve must be a function'' (opt_onReserve opts) of
                    Inl e \<Rightarrow> (Inl e, timeBasis', h)
                  | Inr on_reserve \<Rightarrow>
                      (let this = \<lparr>entries = Map.empty, name = name0, create = create_fn,
                                   onRelease = on_release, onReserve = on_reserve,
                                   stack = [], frozen = False, initialSize = initialSize0\<rparr>
                       in case (if initialSize0 \<noteq> 0 then populate initialSize0 0 (this, h)
                                else (Inr (), this, h)) of
                            (Inl e, p, h') \<Rightarrow> (Inl e, timeBasis', h')
                          | (Inr _, p, h') \<Rightarrow> (Inr (p\<lparr>frozen := DEV\<rparr>), timeBasis', h')))))"

subsection \<open>Notions the properties are stated with\<close>

text \<open>
  The ownership lookup of \<open>release\<close>: \<open>this.entries.get(entry) === this.name\<close>.
\<close>

definition owns :: "('w, 'z) Pool_scheme \<Rightarrow> jsval \<Rightarrow> bool" where
  "owns p e \<longleftrightarrow> WeakMap_get (entries p) e = Some (name p)"

text \<open>Every entry of the free list is registered in the map under the pool's name.\<close>

definition registered :: "('w, 'z) Pool_scheme \<Rightarrow> bool" where
  "registered p \<longleftrightarrow> (\<forall>e \<in> set (stack p). owns p e)"

text \<open>
  The tail of \<open>reserve\<close>, after the entry has been taken: the hook, if there is one, and
  the return.
\<close>

definition after_hook ::
  "'w Handler option \<Rightarrow> jsval \<Rightarrow> 'p \<Rightarrow> 'w \<Rightarrow> (exn + jsval) \<times> 'p \<times> 'w" where
  "after_hook h e p w =
     (case h of
        None \<Rightarrow> (Inr e, p, w)
      | Some hook \<Rightarrow>
          (case hook e w of
             (Inl v, w') \<Rightarrow> (Inl (Thrown v), p, w')
           | (Inr _, w') \<Rightarrow> (Inr e, p, w')))"

text \<open>
  A caller's use of a pool: any sequence of method calls, each on the state the call
  before has left, whether it returned or threw. A method without a return value
  returns \<open>undefined\<close>.
\<close>

datatype call = Generate | Reserve | Release jsval | Reset

definition void :: "(exn + unit) \<times> 's \<Rightarrow> (exn + jsval) \<times> 's" where
  "void = (\<lambda>(r, s). (case r of Inl e \<Rightarrow> Inl e | Inr _ \<Rightarrow> Inr JUndefined, s))"

fun invoke ::
  "call \<Rightarrow> ('w, 'z) Nage_scheme \<times> 'w \<Rightarrow> (exn + jsval) \<times> ('w, 'z) Nage_scheme \<times> 'w" where
  "invoke Generate s = generate s"
| "invoke Reserve s = reserve s"
| "invoke (Release e) s = void (release e s)"
| "invoke Reset s = void (reset s)"

fun run :: "call list \<Rightarrow> ('w, 'z) Nage_scheme \<times> 'w \<Rightarrow> ('w, 'z) Nage_scheme \<times> 'w" where
  "run [] s = s"
| "run (m # ms) s = run ms (snd (invoke m s))"

text \<open>
  What the loop is to do, in the words of the specification: manufacture that many
  entries via \<open>generate\<close>, here \<open>k\<close>, one after the other, stopping at the first call
  that fails. The result is the entries made, in the order made, the exception if there
  was one, and the state. The loop of the source is compared with it below.
\<close>

fun manufacture ::
  "nat \<Rightarrow> ('w, 'z) Pool_scheme \<times> 'w \<Rightarrow> jsval list \<times> exn option \<times> ('w, 'z) Pool_scheme \<times> 'w" where
  "manufacture 0 s = ([], None, s)"
| "manufacture (Suc k) s =
     (case generate s of
        (Inl e, s') \<Rightarrow> ([], Some e, s')
      | (Inr entry, s') \<Rightarrow>
          (case manufacture k s' of (es, r, s'') \<Rightarrow> (entry # es, r, s'')))"

text \<open>
  A hook of the options that the strict mode refuses: truthy, so that the validation
  looks at it, and not callable.
\<close>

definition invalid_hook :: "'f propval \<Rightarrow> bool" where
  "invalid_hook x \<longleftrightarrow> truthy_prop x \<and> \<not> is_function x"

subsection \<open>Example clients\<close>

text \<open>A pool of class \<open>Nage\<close> with the default factory, owning the object at address 3.\<close>

definition demo_pool :: "heap Nage" where
  "demo_pool = \<lparr>entries = [3 \<mapsto> ''nage_1_2''], name = ''nage_1_2'', create = getEmptyObject,
     onRelease = None, onReserve = None, stack = [], frozen = True, initialSize = 0\<rparr>"

text \<open>A hook that throws, and the pool that \<open>new Pool({onRelease})\<close> builds with it in strict mode.\<close>

definition refuse :: "heap Handler" where
  "refuse e w = (Inl (JString ''refused''), w)"

definition demo_refusing :: "heap Pool" where
  "demo_refusing = \<lparr>entries = Map.empty, name = pool_name ''pool_'' 5 7, create = getEmptyObject,
     onRelease = Some refuse, onReserve = None, stack = [], frozen = True\<rparr>"

text \<open>
  The pool that \<open>new Nage({initialSize: 2})\<close> builds in strict mode, from the counter
  at 5, the random number 7 and a heap whose next free address is 0.
\<close>

definition demo_nage :: "heap Nage" where
  "demo_nage = \<lparr>entries = [0 \<mapsto> pool_name ''nage_'' 5 7, 1 \<mapsto> pool_name ''nage_'' 5 7],
     name = pool_name ''nage_'' 5 7, create = getEmptyObject,
     onRelease = None, onReserve = None, stack = [JObject 0, JObject 1],
     frozen = True, initialSize = 2\<rparr>"

text \<open>The pool that \<open>new Pool()\<close> builds in strict mode, from the same counter and number.\<close>

definition demo_fresh :: "heap Pool" where
  "demo_fresh = \<lparr>entries = Map.empty, name = pool_name ''pool_'' 5 7, create = getEmptyObject,
     onRelease = None, onReserve = None, stack = [], frozen = True\<rparr>"

text \<open>A world that counts the calls of a hook, and the hook that counts.\<close>

record counted = heap +
  calls :: nat

definition count_call :: "counted Handler" where
  "count_call e w = (Inr JUndefined, w\<lparr>calls := calls w + 1\<rparr>)"

text \<open>A pool with the counting hook on both sides, owning the object at address 3.\<close>

definition demo_counting :: "counted Pool" where
  "demo_counting = \<lparr>entries = [3 \<mapsto> ''pool_1_2''], name = ''pool_1_2'', create = getEmptyObject,
     onRelease = Some count_call, onReserve = Some count_call, stack = [], frozen = True\<rparr>"

text \<open>The fresh pool after it has manufactured two entries.\<close>

definition demo_two :: "heap Pool" where
  "demo_two = demo_fresh\<lparr>entries := [0 \<mapsto> pool_name ''pool_'' 5 7, 1 \<mapsto> pool_name ''pool_'' 5 7]\<rparr>"

text \<open>The prepopulated pool after a \<open>reset\<close>.\<close>

definition demo_reset :: "heap Nage" where
  "demo_reset = demo_nage
     \<lparr>entries := [0 \<mapsto> pool_name ''nage_'' 5 7, 1 \<mapsto> pool_name ''nage_'' 5 7,
                  2 \<mapsto> pool_name ''nage_'' 5 7, 3 \<mapsto> pool_name ''nage_'' 5 7],
      stack := [JObject 2, JObject 3]\<rparr>"

text \<open>A factory that throws once the heap has reached the address \<open>k\<close>.\<close>

definition exhausted_at :: "nat \<Rightarrow> heap Creator" where
  "exhausted_at k h = (if nextRef h < k then getEmptyObject h else (Inl (JString ''exhausted''), h))"

text \<open>The prepopulated pool with that factory, to hold three entries.\<close>

definition demo_limited :: "heap Nage" where
  "demo_limited = demo_nage\<lparr>create := exhausted_at 3, initialSize := 3\<rparr>"

text \<open>The prepopulated pool at the end of the scenario.\<close>

definition demo_four :: "heap Nage" where
  "demo_four = demo_nage
     \<lparr>entries := [0 \<mapsto> pool_name ''nage_'' 5 7, 1 \<mapsto> pool_name ''nage_'' 5 7,
                  2 \<mapsto> pool_name ''nage_'' 5 7],
      stack := [JObject 1]\<rparr>"

section \<open>Properties\<close>

subsection \<open>Library calls\<close>


lemma indexOf_from_absent:
  "0 \<le> i \<Longrightarrow> (indexOf_from xs x i = - 1) = (\<forall>y \<in> set xs. \<not> strict_eq y x)"
  by (induction xs arbitrary: i) auto

lemma indexOf_absent: "(indexOf xs x = - 1) = (\<forall>y \<in> set xs. \<not> strict_eq y x)"
  by (simp add: indexOf_def indexOf_from_absent)

lemma indexOf_object [simp]: "(indexOf xs (JObject r) = - 1) = (JObject r \<notin> set xs)"
  by (auto simp: indexOf_absent strict_eq_def)

lemma WeakMap_get_SomeD: "WeakMap_get m e = Some s \<Longrightarrow> \<exists>r. e = JObject r \<and> m r = Some s"
  by (cases e) auto

lemma WeakMap_get_upd [simp]:
  "WeakMap_get (m(r \<mapsto> s)) e = (if e = JObject r then Some s else WeakMap_get m e)"
  by (cases e) auto

lemma owns_object: "owns p e \<Longrightarrow> \<exists>r. e = JObject r"
  by (auto simp: owns_def dest: WeakMap_get_SomeD)

lemma owns_indexOf: "owns p e \<Longrightarrow> (indexOf xs e = - 1) = (e \<notin> set xs)"
  by (auto dest: owns_object)

text \<open>The three ways \<open>generate\<close> can end.\<close>

lemma generate_cases:
  obtains (threw) v w' where "create p w = (Inl v, w')" "generate (p, w) = (Inl (Thrown v), p, w')"
  | (primitive) e w' where "create p w = (Inr e, w')" "\<forall>r. e \<noteq> JObject r"
      "generate (p, w) = (Inl TypeError, p, w')"
  | (object) r w' where "create p w = (Inr (JObject r), w')"
      "generate (p, w) = (Inr (JObject r), p\<lparr>entries := (entries p)(r \<mapsto> name p)\<rparr>, w')"
proof (cases "create p w")
  case (Pair res w')
  show ?thesis
  proof (cases res)
    case (Inl v)
    with Pair threw show ?thesis by (simp add: generate_def)
  next
    case (Inr e)
    show ?thesis
    proof (cases e)
      case (JObject r)
      with Pair Inr object show ?thesis by (simp add: generate_def)
    qed (use Pair Inr primitive in \<open>simp_all add: generate_def\<close>)
  qed
qed

lemma generate_InrD:
  assumes "generate (p, w) = (Inr e, p', w')"
  shows "\<exists>r. e = JObject r \<and> create p w = (Inr e, w') \<and> p' = p\<lparr>entries := (entries p)(r \<mapsto> name p)\<rparr>"
  using assms by (cases rule: generate_cases [of p w]) auto

lemma generate_InlD:
  assumes "generate (p, w) = (Inl e, p', w')"
  shows "p' = p"
  using assms by (cases rule: generate_cases [of p w]) auto

lemma generate_stack_upd:
  "generate (p\<lparr>stack := xs\<rparr>, w) = (case generate (p, w) of (r, p', w') \<Rightarrow> (r, p'\<lparr>stack := xs\<rparr>, w'))"
  by (simp add: generate_def split: prod.splits sum.splits)

lemma generate_owns_result: "generate (p, w) = (Inr e, p', w') \<Longrightarrow> owns p' e"
  by (auto simp: owns_def dest!: generate_InrD)

lemma generate_owns_mono: "owns p x \<Longrightarrow> owns (fst (snd (generate (p, w)))) x"
  by (rule generate_cases [of p w]) (auto simp: owns_def)

lemma generate_stack: "stack (fst (snd (generate (p, w)))) = stack p"
  by (rule generate_cases [of p w]) auto

lemma generate_name: "name (fst (snd (generate (p, w)))) = name p"
  by (rule generate_cases [of p w]) auto

lemma generate_registered: "registered p \<Longrightarrow> registered (fst (snd (generate (p, w))))"
  by (simp add: registered_def generate_stack generate_owns_mono)


text \<open>\<open>release\<close>, branch by branch.\<close>

lemma release_foreign: "\<not> owns p e \<Longrightarrow> release e (p, w) = (Inl OwnershipError, p, w)"
  by (simp add: release_def owns_def)

lemma release_present: "owns p e \<Longrightarrow> e \<in> set (stack p) \<Longrightarrow> release e (p, w) = (Inr (), p, w)"
  by (frule owns_indexOf [of p e "stack p"]) (simp add: release_def owns_def)

lemma release_push_no_hook:
  "owns p e \<Longrightarrow> e \<notin> set (stack p) \<Longrightarrow> onRelease p = None \<Longrightarrow>
   release e (p, w) = (Inr (), p\<lparr>stack := stack p @ [e]\<rparr>, w)"
  by (frule owns_indexOf [of p e "stack p"]) (simp add: release_def owns_def)

lemma release_push_hook:
  "owns p e \<Longrightarrow> e \<notin> set (stack p) \<Longrightarrow> onRelease p = Some hook \<Longrightarrow> hook e w = (Inr v, w') \<Longrightarrow>
   release e (p, w) = (Inr (), p\<lparr>stack := stack p @ [e]\<rparr>, w')"
  by (frule owns_indexOf [of p e "stack p"]) (simp add: release_def owns_def)

lemma release_hook_throws:
  "owns p e \<Longrightarrow> e \<notin> set (stack p) \<Longrightarrow> onRelease p = Some hook \<Longrightarrow> hook e w = (Inl v, w') \<Longrightarrow>
   release e (p, w) = (Inl (Thrown v), p, w')"
  by (frule owns_indexOf [of p e "stack p"]) (simp add: release_def owns_def)

lemma release_cases:
  obtains (foreign) "\<not> owns p e" "release e (p, w) = (Inl OwnershipError, p, w)"
  | (present) "owns p e" "e \<in> set (stack p)" "release e (p, w) = (Inr (), p, w)"
  | (pushed) w' where "owns p e" "e \<notin> set (stack p)"
      "release e (p, w) = (Inr (), p\<lparr>stack := stack p @ [e]\<rparr>, w')"
      "onRelease p = None \<and> w' = w \<or> (\<exists>hook v. onRelease p = Some hook \<and> hook e w = (Inr v, w'))"
  | (hook_threw) hook v w' where "owns p e" "e \<notin> set (stack p)" "onRelease p = Some hook"
      "hook e w = (Inl v, w')" "release e (p, w) = (Inl (Thrown v), p, w')"
proof (cases "owns p e")
  case False
  then show ?thesis by (intro foreign release_foreign)
next
  case own: True
  show ?thesis
  proof (cases "e \<in> set (stack p)")
    case True
    with own show ?thesis by (intro present release_present)
  next
    case absent: False
    show ?thesis
    proof (cases "onRelease p")
      case None
      show ?thesis
        by (rule pushed [OF own absent release_push_no_hook [OF own absent None]])
          (use None in blast)
    next
      case (Some hook)
      show ?thesis
      proof (cases "hook e w")
        case (Pair res w')
        show ?thesis
        proof (cases res)
          case (Inl v)
          with Pair have h: "hook e w = (Inl v, w')" by simp
          show ?thesis
            by (rule hook_threw [OF own absent Some h release_hook_throws [OF own absent Some h]])
        next
          case (Inr v)
          with Pair have h: "hook e w = (Inr v, w')" by simp
          show ?thesis
            by (rule pushed [OF own absent release_push_hook [OF own absent Some h]])
              (use Some h in blast)
        qed
      qed
    qed
  qed
qed

lemma release_owns_mono: "owns p x \<Longrightarrow> owns (fst (snd (release e (p, w)))) x"
  by (rule release_cases [of p e w]) (auto simp: owns_def)

lemma release_registered: "registered p \<Longrightarrow> registered (fst (snd (release e (p, w))))"
  by (rule release_cases [of p e w]) (auto simp: registered_def owns_def)

lemma after_hook_state [simp]: "fst (snd (after_hook h e p w)) = p"
  by (simp add: after_hook_def split: option.splits prod.splits sum.splits)

lemma after_hook_InrD: "after_hook h e p w = (Inr x, p', w') \<Longrightarrow> x = e \<and> p' = p"
  by (auto simp: after_hook_def split: option.splits prod.splits sum.splits)

lemma reserve_pop:
  "stack p \<noteq> [] \<Longrightarrow>
   reserve (p, w) = after_hook (onReserve p) (last (stack p)) (p\<lparr>stack := butlast (stack p)\<rparr>) w"
  by (simp add: reserve_def after_hook_def)

lemma reserve_generate_fails:
  "stack p = [] \<Longrightarrow> generate (p, w) = (Inl e, s) \<Longrightarrow> reserve (p, w) = (Inl e, s)"
  by (simp add: reserve_def)

lemma reserve_generate:
  "stack p = [] \<Longrightarrow> generate (p, w) = (Inr e, p', w') \<Longrightarrow>
   reserve (p, w) = after_hook (onReserve p) e p' w'"
  by (simp add: reserve_def after_hook_def)

lemma reserve_owns_mono: "owns p x \<Longrightarrow> owns (fst (snd (reserve (p, w)))) x"
proof (cases "stack p = []")
  case False
  assume "owns p x"
  with False show ?thesis by (simp add: reserve_pop owns_def)
next
  case True
  assume own: "owns p x"
  obtain r p' w' where g: "generate (p, w) = (r, p', w')" by (cases "generate (p, w)")
  from generate_owns_mono [OF own, of w] g have "owns p' x" by simp
  with True g show ?thesis
    by (cases r) (simp_all add: reserve_generate reserve_generate_fails)
qed

lemma reserve_registered: "registered p \<Longrightarrow> registered (fst (snd (reserve (p, w))))"
proof (cases "stack p = []")
  case False
  assume "registered p"
  with False show ?thesis
    by (auto simp: reserve_pop registered_def owns_def dest: in_set_butlastD)
next
  case True
  assume reg: "registered p"
  obtain r p' w' where g: "generate (p, w) = (r, p', w')" by (cases "generate (p, w)")
  from generate_registered [OF reg, of w] g have "registered p'" by simp
  with True g show ?thesis
    by (cases r) (simp_all add: reserve_generate reserve_generate_fails)
qed


text \<open>The loop, against \<open>manufacture\<close>.\<close>

lemma manufacture_stack_upd:
  "manufacture k (p\<lparr>stack := xs\<rparr>, w) =
     (case manufacture k (p, w) of (es, r, p', w') \<Rightarrow> (es, r, p'\<lparr>stack := xs\<rparr>, w'))"
proof (induction k arbitrary: p w)
  case 0
  show ?case by simp
next
  case (Suc k)
  obtain r p' w' where g: "generate (p, w) = (r, p', w')" by (cases "generate (p, w)")
  then have g': "generate (p\<lparr>stack := xs\<rparr>, w) = (r, p'\<lparr>stack := xs\<rparr>, w')"
    by (simp add: generate_stack_upd)
  show ?case
  proof (cases r)
    case (Inl e)
    with g g' show ?thesis by simp
  next
    case (Inr entry)
    obtain es r1 q v where m: "manufacture k (p', w') = (es, r1, q, v)"
      by (cases "manufacture k (p', w')")
    with Suc.IH [of p' w'] have "manufacture k (p'\<lparr>stack := xs\<rparr>, w') = (es, r1, q\<lparr>stack := xs\<rparr>, v)"
      by simp
    with g g' Inr m show ?thesis by simp
  qed
qed

lemma manufacture_stack: "manufacture k (p, w) = (es, r, p', w') \<Longrightarrow> stack p' = stack p"
proof (induction k arbitrary: p w es)
  case 0
  then show ?case by simp
next
  case (Suc k)
  obtain r0 p0 w0 where g: "generate (p, w) = (r0, p0, w0)" by (cases "generate (p, w)")
  with generate_stack [of p w] have st: "stack p0 = stack p" by simp
  show ?case
  proof (cases r0)
    case (Inl e)
    with g st Suc.prems show ?thesis by simp
  next
    case (Inr entry)
    with g Suc.prems obtain es' where "manufacture k (p0, w0) = (es', r, p', w')"
      by (auto split: prod.splits)
    with Suc.IH st show ?thesis by simp
  qed
qed

lemma generate_fields: "generate (p, w) = (r, p', w') \<Longrightarrow> p' = p\<lparr>entries := entries p'\<rparr>"
  by (cases rule: generate_cases [of p w]) auto

lemma manufacture_fields:
  "manufacture k (p, w) = (es, r, p', w') \<Longrightarrow> p' = p\<lparr>entries := entries p'\<rparr>"
proof (induction k arbitrary: p w es)
  case 0
  then show ?case by simp
next
  case (Suc k)
  obtain r0 p0 w0 where g: "generate (p, w) = (r0, p0, w0)" by (cases "generate (p, w)")
  note p0 = generate_fields [OF g]
  show ?case
  proof (cases r0)
    case (Inl e)
    with g Suc.prems p0 show ?thesis by simp
  next
    case (Inr entry)
    with g Suc.prems obtain es' where "manufacture k (p0, w0) = (es', r, p', w')"
      by (auto split: prod.splits)
    from Suc.IH [OF this] have "p' = p0\<lparr>entries := entries p'\<rparr>" .
    then have "p' = (p\<lparr>entries := entries p0\<rparr>)\<lparr>entries := entries p'\<rparr>"
      using p0 by simp
    then show ?thesis by simp
  qed
qed

lemma populate_stop: "\<not> i < n \<Longrightarrow> populate n i (p, w) = (Inr (), p, w)"
  by (subst populate.simps) simp

lemma populate_fail:
  "i < n \<Longrightarrow> generate (p, w) = (Inl e, s) \<Longrightarrow> populate n i (p, w) = (Inl e, s)"
  by (subst populate.simps) simp

lemma populate_step:
  "i < n \<Longrightarrow> generate (p, w) = (Inr entry, p', w') \<Longrightarrow>
   populate n i (p, w) = populate n (i + 1) (p'\<lparr>stack := stack p' @ [entry]\<rparr>, w')"
  by (subst populate.simps) simp

lemma populate_manufacture:
  "populate n i (p, w) =
     (case manufacture (nat (n - i)) (p, w) of
        (es, r, p', w') \<Rightarrow>
          ((case r of None \<Rightarrow> Inr () | Some e \<Rightarrow> Inl e), p'\<lparr>stack := stack p @ es\<rparr>, w'))"
proof (induction k \<equiv> "nat (n - i)" arbitrary: i p w)
  case 0
  then have "\<not> i < n" and "nat (n - i) = 0" by simp_all
  then show ?case by (simp add: populate_stop)
next
  case (Suc k)
  then have lt: "i < n" and k: "k = nat (n - (i + 1))" and sk: "nat (n - i) = Suc k" by simp_all
  obtain r p' w' where g: "generate (p, w) = (r, p', w')" by (cases "generate (p, w)")
  show ?case
  proof (cases r)
    case (Inl e)
    with g have gl: "generate (p, w) = (Inl e, p', w')" by simp
    from generate_InlD [OF gl] have "p' = p" .
    with gl lt sk show ?thesis by (simp add: populate_fail)
  next
    case (Inr entry)
    from generate_stack [of p w] g have st: "stack p' = stack p" by simp
    obtain es r1 q v where m: "manufacture k (p', w') = (es, r1, q, v)"
      by (cases "manufacture k (p', w')")
    have "populate n i (p, w) = populate n (i + 1) (p'\<lparr>stack := stack p @ [entry]\<rparr>, w')"
      using g Inr lt st by (simp add: populate_step)
    also have "\<dots> = (case manufacture k (p'\<lparr>stack := stack p @ [entry]\<rparr>, w') of
        (es, r, q, v) \<Rightarrow>
          ((case r of None \<Rightarrow> Inr () | Some e \<Rightarrow> Inl e), q\<lparr>stack := (stack p @ [entry]) @ es\<rparr>, v))"
      using Suc.hyps(1) [OF k, of "p'\<lparr>stack := stack p @ [entry]\<rparr>" w'] k by simp
    also have "\<dots> = ((case r1 of None \<Rightarrow> Inr () | Some e \<Rightarrow> Inl e), q\<lparr>stack := stack p @ entry # es\<rparr>, v)"
      using m by (simp add: manufacture_stack_upd)
    finally show ?thesis
      using g Inr sk m by simp
  qed
qed

lemma manufacture_length:
  "manufacture k s = (es, r, s') \<Longrightarrow> (r = None \<longrightarrow> length es = k) \<and> (r \<noteq> None \<longrightarrow> length es < k)"
proof (induction k arbitrary: s es)
  case 0
  then show ?case by auto
next
  case (Suc k)
  obtain r0 s0 where g: "generate s = (r0, s0)" by (cases "generate s")
  show ?case
  proof (cases r0)
    case (Inl e)
    with g Suc.prems show ?thesis by auto
  next
    case (Inr entry)
    with g Suc.prems obtain es' where m: "manufacture k s0 = (es', r, s')" and es: "es = entry # es'"
      by (auto split: prod.splits)
    from Suc.IH [OF m] es show ?thesis by simp
  qed
qed


lemma manufacture_owns:
  "manufacture k (p, w) = (es, r, p', w') \<Longrightarrow>
   (\<forall>x. owns p x \<longrightarrow> owns p' x) \<and> (\<forall>e \<in> set es. owns p' e)"
proof (induction k arbitrary: p w es)
  case 0
  then show ?case by simp
next
  case (Suc k)
  obtain r0 p0 w0 where g: "generate (p, w) = (r0, p0, w0)" by (cases "generate (p, w)")
  have mono: "owns p0 x" if "owns p x" for x
    using generate_owns_mono [OF that, of w] g by simp
  show ?case
  proof (cases r0)
    case (Inl e)
    with g Suc.prems mono show ?thesis by auto
  next
    case (Inr entry)
    with g Suc.prems obtain es' where m: "manufacture k (p0, w0) = (es', r, p', w')"
      and es: "es = entry # es'"
      by (auto split: prod.splits)
    from g Inr have "owns p0 entry" by (simp add: generate_owns_result)
    with Suc.IH [OF m] es mono show ?thesis by simp
  qed
qed

lemma reset_manufacture:
  "reset (p, w) =
     (case manufacture (nat (initialSize p)) (p, w) of
        (es, r, p', w') \<Rightarrow> ((case r of None \<Rightarrow> Inr () | Some e \<Rightarrow> Inl e), p'\<lparr>stack := es\<rparr>, w'))"
proof (cases "initialSize p = 0")
  case True
  then show ?thesis by (simp add: reset_def)
next
  case False
  obtain es r p' w' where m: "manufacture (nat (initialSize p)) (p, w) = (es, r, p', w')"
    by (cases "manufacture (nat (initialSize p)) (p, w)")
  with False show ?thesis
    by (simp add: reset_def populate_manufacture manufacture_stack_upd)
qed

lemma reset_owns_mono: "owns p x \<Longrightarrow> owns (fst (snd (reset (p, w)))) x"
proof -
  assume own: "owns p x"
  obtain es r p' w' where m: "manufacture (nat (initialSize p)) (p, w) = (es, r, p', w')"
    by (cases "manufacture (nat (initialSize p)) (p, w)")
  from manufacture_owns [OF m] own have "owns p' x" by simp
  with m show ?thesis by (simp add: reset_manufacture owns_def)
qed

lemma reset_registered: "registered (fst (snd (reset (p, w))))"
proof -
  obtain es r p' w' where m: "manufacture (nat (initialSize p)) (p, w) = (es, r, p', w')"
    by (cases "manufacture (nat (initialSize p)) (p, w)")
  from manufacture_owns [OF m] have "\<forall>e \<in> set es. owns p' e" by simp
  with m show ?thesis by (simp add: reset_manufacture registered_def owns_def)
qed

lemma clear_registered: "registered (fst (snd (clear (p, w))))"
  by (simp add: clear_def registered_def)

lemma snd_void [simp]: "snd (void x) = snd x"
  by (cases x) (simp add: void_def)

lemma invoke_owns_mono: "owns p x \<Longrightarrow> owns (fst (snd (invoke m (p, w)))) x"
  by (cases m)
    (simp_all add: generate_owns_mono reserve_owns_mono release_owns_mono reset_owns_mono)

lemma invoke_registered: "registered p \<Longrightarrow> registered (fst (snd (invoke m (p, w))))"
  by (cases m)
    (simp_all add: generate_registered reserve_registered release_registered reset_registered)

lemma populate_registered: "registered p \<Longrightarrow> registered (fst (snd (populate n i (p, w))))"
proof -
  assume reg: "registered p"
  obtain es r p' w' where m: "manufacture (nat (n - i)) (p, w) = (es, r, p', w')"
    by (cases "manufacture (nat (n - i)) (p, w)")
  from manufacture_owns [OF m] reg have "\<forall>e \<in> set (stack p @ es). owns p' e"
    by (auto simp: registered_def)
  with m show ?thesis by (simp add: populate_manufacture registered_def owns_def)
qed

lemma Pool_constructor_InrD:
  assumes "Pool_constructor DEV rnd options (tb, h) = (Inr p, tb', h')"
  shows "stack p = [] \<and> entries p = Map.empty \<and> frozen p = DEV \<and> h' = h \<and> tb' = tb + 1"
  using assms
  by (auto simp: Pool_constructor_def Let_def split: propval.splits sum.splits)


lemma Nage_constructor_InrD:
  assumes "Nage_constructor DEV rnd options (tb, h) = (Inr p, tb', h')"
  shows "\<exists>this es p1. stack this = [] \<and> entries this = Map.empty \<and> frozen this = False \<and>
           initialSize this =
             (case options of None \<Rightarrow> 0
              | Some opts \<Rightarrow> (case opt_initialSize opts of None \<Rightarrow> 0 | Some n \<Rightarrow> n)) \<and>
           default_prop getEmptyObject
             (opt_create (case options of None \<Rightarrow> EMPTY_OBJECT | Some given \<Rightarrow> given)) =
             Fn (create this) \<and>
           check_hook DEV ''onRelease must be a function''
             (opt_onRelease (case options of None \<Rightarrow> EMPTY_OBJECT | Some given \<Rightarrow> given)) =
             Inr (onRelease this) \<and>
           check_hook DEV ''onReserve must be a function''
             (opt_onReserve (case options of None \<Rightarrow> EMPTY_OBJECT | Some given \<Rightarrow> given)) =
             Inr (onReserve this) \<and>
           name this = pool_name ''nage_'' tb rnd \<and>
           manufacture (nat (initialSize this)) (this, h) = (es, None, p1, h') \<and>
           p = p1\<lparr>stack := es, frozen := DEV\<rparr> \<and> tb' = tb + 1"
proof -
  define opts where "opts = (case options of None \<Rightarrow> EMPTY_OBJECT | Some given \<Rightarrow> given)"
  from assms obtain create_fn on_release on_reserve where
    checks: "default_prop getEmptyObject (opt_create opts) = Fn create_fn"
      "check_hook DEV ''onRelease must be a function'' (opt_onRelease opts) = Inr on_release"
      "check_hook DEV ''onReserve must be a function'' (opt_onReserve opts) = Inr on_reserve"
    unfolding Nage_constructor_def opts_def
    by (auto simp: Let_def split: propval.splits sum.splits)
  define n where "n = (case opt_initialSize opts of None \<Rightarrow> 0 | Some n \<Rightarrow> n)"
  define this where "this = \<lparr>entries = Map.empty, name = pool_name ''nage_'' tb rnd,
      create = create_fn, onRelease = on_release, onReserve = on_reserve, stack = [],
      frozen = False, initialSize = n\<rparr>"
  have init: "stack this = []" "entries this = Map.empty" "initialSize this = n"
    "frozen this = False" "create this = create_fn" "onRelease this = on_release"
    "onReserve this = on_reserve" "name this = pool_name ''nage_'' tb rnd"
    by (simp_all add: this_def)
  have n: "n = (case options of None \<Rightarrow> 0
      | Some opts \<Rightarrow> (case opt_initialSize opts of None \<Rightarrow> 0 | Some n \<Rightarrow> n))"
    by (simp add: n_def opts_def EMPTY_OBJECT_def split: option.splits)
  have run: "(case (if n \<noteq> 0 then populate n 0 (this, h) else (Inr (), this, h)) of
                 (Inl e, p, h') \<Rightarrow> (Inl e, Suc tb, h')
               | (Inr _, p, h') \<Rightarrow> (Inr (p\<lparr>frozen := DEV\<rparr>), Suc tb, h')) = (Inr p, tb', h')"
    using assms checks unfolding Nage_constructor_def opts_def this_def n_def
    by (simp add: Let_def split del: if_split)
  obtain es r p1 w1 where m: "manufacture (nat n) (this, h) = (es, r, p1, w1)"
    by (cases "manufacture (nat n) (this, h)")
  have pop: "(if n \<noteq> 0 then populate n 0 (this, h) else (Inr (), this, h)) =
      ((case r of None \<Rightarrow> Inr () | Some e \<Rightarrow> Inl e), p1\<lparr>stack := es\<rparr>, w1)"
    using m init by (cases "n = 0") (auto simp: populate_manufacture)
  from run have "r = None \<and> p = p1\<lparr>stack := es, frozen := DEV\<rparr> \<and> tb' = tb + 1 \<and> h' = w1"
    unfolding pop by (cases r) auto
  with m init n checks show ?thesis unfolding opts_def by auto
qed


lemma Nage_constructor_registered:
  assumes "Nage_constructor DEV rnd options (tb, h) = (Inr p, tb', h')"
  shows "registered p"
proof -
  from Nage_constructor_InrD [OF assms] obtain this es p1 where
    m: "manufacture (nat (initialSize this)) (this, h) = (es, None, p1, h')"
    and p: "p = p1\<lparr>stack := es, frozen := DEV\<rparr>"
    by auto
  from manufacture_owns [OF m] p show ?thesis by (simp add: registered_def owns_def)
qed

lemma run_owns_mono: "owns (fst s) x \<Longrightarrow> owns (fst (run ms s)) x"
proof (induction ms arbitrary: s)
  case Nil
  then show ?case by simp
next
  case (Cons m ms)
  obtain p w where s: "s = (p, w)" by (cases s)
  with Cons.prems invoke_owns_mono [of p x m w] have "owns (fst (snd (invoke m s))) x" by simp
  from Cons.IH [OF this] show ?case by simp
qed

lemma run_registered: "registered (fst s) \<Longrightarrow> registered (fst (run ms s))"
proof (induction ms arbitrary: s)
  case Nil
  then show ?case by simp
next
  case (Cons m ms)
  obtain p w where s: "s = (p, w)" by (cases s)
  with Cons.prems invoke_registered [of p m w] have "registered (fst (snd (invoke m s)))" by simp
  from Cons.IH [OF this] show ?case by simp
qed

subsection \<open>Ownership\<close>

text \<open>
  Claim C1 says that \<open>release\<close> succeeds for every entry that the pool's \<open>generate\<close> has
  produced, and throws if and only if the ownership lookup fails. On a pool built with
  an \<open>onRelease\<close> hook that throws this is not so: the entry that \<open>generate\<close> returns is
  owned, the lookup gives the pool's name, the entry is not in the free list, so
  \<open>release\<close> calls the hook, and the hook's exception leaves \<open>release\<close>.
\<close>

theorem release_ownership_counterexample:
  "Pool_constructor True 7 (Some (EMPTY_OBJECT\<lparr>opt_onRelease := Fn refuse\<rparr>)) (5, \<lparr>nextRef = 0\<rparr>) =
     (Inr demo_refusing, 6, \<lparr>nextRef = 0\<rparr>)
   \<and> generate (demo_refusing, \<lparr>nextRef = 0\<rparr>) =
       (Inr (JObject 0), demo_refusing\<lparr>entries := [0 \<mapsto> pool_name ''pool_'' 5 7]\<rparr>, \<lparr>nextRef = 1\<rparr>)
   \<and> owns (demo_refusing\<lparr>entries := [0 \<mapsto> pool_name ''pool_'' 5 7]\<rparr>) (JObject 0)
   \<and> release (JObject 0) (demo_refusing\<lparr>entries := [0 \<mapsto> pool_name ''pool_'' 5 7]\<rparr>, \<lparr>nextRef = 1\<rparr>) =
       (Inl (Thrown (JString ''refused'')),
        demo_refusing\<lparr>entries := [0 \<mapsto> pool_name ''pool_'' 5 7]\<rparr>, \<lparr>nextRef = 1\<rparr>)"
  by (simp add: Pool_constructor_def EMPTY_OBJECT_def check_hook_def Let_def demo_refusing_def
      generate_def getEmptyObject_def owns_def release_def refuse_def)

text \<open>
  Claim C1, amended. \<open>release\<close> throws the ownership error exactly when the lookup of
  the entry in \<open>entries\<close> does not give the pool's own name, and then leaves pool and
  world as they were. When the lookup does give the name, \<open>release\<close> returns, unless the
  caller's \<open>onRelease\<close> hook throws, whose exception passes through; so with no hook, or
  a hook that returns, \<open>release\<close> throws if and only if the lookup fails, and in general
  it throws if and only if the lookup fails or the entry is not in the free list and the
  hook throws on it. An entry that \<open>generate\<close> has returned is owned, and stays owned
  whatever methods are called afterwards.
\<close>

theorem release_ownership:
  fixes p :: "('w, 'z) Pool_scheme" and q :: "('w, 'y) Nage_scheme"
  shows "((fst (release e (p, w)) = Inl OwnershipError) = (\<not> owns p e))
    \<and> (\<not> owns p e \<longrightarrow> release e (p, w) = (Inl OwnershipError, p, w))
    \<and> (owns p e \<longrightarrow>
          fst (release e (p, w)) = Inr () \<or>
          (\<exists>hook v w'. onRelease p = Some hook \<and> e \<notin> set (stack p) \<and> hook e w = (Inl v, w') \<and>
             release e (p, w) = (Inl (Thrown v), p, w')))
    \<and> (onRelease p = None \<or> (\<exists>hook v w'. onRelease p = Some hook \<and> hook e w = (Inr v, w')) \<longrightarrow>
          (\<exists>x. fst (release e (p, w)) = Inl x) = (\<not> owns p e))
    \<and> (generate (q, w) = (Inr x, s) \<longrightarrow> owns (fst (run ms s)) x)
    \<and> ((\<exists>x. fst (release e (p, w)) = Inl x) =
         (\<not> owns p e \<or>
          (e \<notin> set (stack p) \<and> (\<exists>hook v w'. onRelease p = Some hook \<and> hook e w = (Inl v, w')))))"
proof (intro conjI impI)
  show "(\<exists>x. fst (release e (p, w)) = Inl x) =
         (\<not> owns p e \<or>
          (e \<notin> set (stack p) \<and> (\<exists>hook v w'. onRelease p = Some hook \<and> hook e w = (Inl v, w'))))"
    by (cases rule: release_cases [of p e w]) auto
  show "(\<exists>x. fst (release e (p, w)) = Inl x) = (\<not> owns p e)"
    if "onRelease p = None \<or> (\<exists>hook v w'. onRelease p = Some hook \<and> hook e w = (Inr v, w'))"
    using that by (cases rule: release_cases [of p e w]) auto
  show "(fst (release e (p, w)) = Inl OwnershipError) = (\<not> owns p e)"
    by (rule release_cases [of p e w]) simp_all
  show "release e (p, w) = (Inl OwnershipError, p, w)" if "\<not> owns p e"
    using that by (rule release_foreign)
  show "fst (release e (p, w)) = Inr () \<or>
          (\<exists>hook v w'. onRelease p = Some hook \<and> e \<notin> set (stack p) \<and> hook e w = (Inl v, w') \<and>
             release e (p, w) = (Inl (Thrown v), p, w'))" if "owns p e"
    using that by (cases rule: release_cases [of p e w]) simp_all
  show "owns (fst (run ms s)) x" if "generate (q, w) = (Inr x, s)"
  proof -
    obtain q' w' where s: "s = (q', w')" by (cases s)
    with that have "owns (fst s) x" by (simp add: generate_owns_result)
    then show ?thesis by (rule run_owns_mono)
  qed
qed

text \<open>
  An instance: a pool owning the object at address 3, the foreign object at address 9,
  and the entry a \<open>generate\<close> makes, after a \<open>reset\<close> and a \<open>reserve\<close>.
\<close>

theorem release_ownership_witness:
  "owns demo_pool (JObject 3)
   \<and> onRelease demo_pool = None
   \<and> fst (release (JObject 3) (demo_pool, \<lparr>nextRef = 4\<rparr>)) = Inr ()
   \<and> \<not> owns demo_pool (JObject 9)
   \<and> release (JObject 9) (demo_pool, \<lparr>nextRef = 4\<rparr>) = (Inl OwnershipError, demo_pool, \<lparr>nextRef = 4\<rparr>)
   \<and> generate (demo_pool, \<lparr>nextRef = 4\<rparr>) =
       (Inr (JObject 4), demo_pool\<lparr>entries := [3 \<mapsto> ''nage_1_2'', 4 \<mapsto> ''nage_1_2'']\<rparr>, \<lparr>nextRef = 5\<rparr>)
   \<and> owns (fst (run [Reset, Reserve]
         (demo_pool\<lparr>entries := [3 \<mapsto> ''nage_1_2'', 4 \<mapsto> ''nage_1_2'']\<rparr>, \<lparr>nextRef = 5\<rparr>))) (JObject 4)"
proof -
  have own: "owns demo_pool (JObject 3)" and foreign: "\<not> owns demo_pool (JObject 9)"
    by (simp_all add: owns_def demo_pool_def)
  have hook: "onRelease demo_pool = None"
    by (simp add: demo_pool_def)
  have gen: "generate (demo_pool, \<lparr>nextRef = 4\<rparr>) =
      (Inr (JObject 4), demo_pool\<lparr>entries := [3 \<mapsto> ''nage_1_2'', 4 \<mapsto> ''nage_1_2'']\<rparr>, \<lparr>nextRef = 5\<rparr>)"
    by (simp add: generate_def demo_pool_def getEmptyObject_def)
  note thm1 = release_ownership [of "JObject 3" demo_pool "\<lparr>nextRef = 4\<rparr>" demo_pool "JObject 4"
      "(demo_pool\<lparr>entries := [3 \<mapsto> ''nage_1_2'', 4 \<mapsto> ''nage_1_2'']\<rparr>, \<lparr>nextRef = 5\<rparr>)"
      "[Reset, Reserve]"]
  note thm2 = release_ownership [of "JObject 9" demo_pool "\<lparr>nextRef = 4\<rparr>" demo_pool "JObject 4"
      "(demo_pool\<lparr>entries := [3 \<mapsto> ''nage_1_2'', 4 \<mapsto> ''nage_1_2'']\<rparr>, \<lparr>nextRef = 5\<rparr>)"
      "[Reset, Reserve]"]
  from thm1 own hook have r1: "fst (release (JObject 3) (demo_pool, \<lparr>nextRef = 4\<rparr>)) = Inr ()"
    by simp
  from thm2 foreign have r2: "release (JObject 9) (demo_pool, \<lparr>nextRef = 4\<rparr>) =
      (Inl OwnershipError, demo_pool, \<lparr>nextRef = 4\<rparr>)"
    by simp
  from thm1 gen have r3: "owns (fst (run [Reset, Reserve]
         (demo_pool\<lparr>entries := [3 \<mapsto> ''nage_1_2'', 4 \<mapsto> ''nage_1_2'']\<rparr>, \<lparr>nextRef = 5\<rparr>))) (JObject 4)"
    by simp
  from own hook r1 foreign r2 gen r3 show ?thesis by (intro conjI)
qed

subsection \<open>The invariant of the free list\<close>

lemma demo_nage_constructed:
  "Nage_constructor True 7 (Some (EMPTY_OBJECT\<lparr>opt_initialSize := Some 2\<rparr>)) (5, \<lparr>nextRef = 0\<rparr>) =
     (Inr demo_nage, 6, \<lparr>nextRef = 2\<rparr>)"
  by (simp add: Nage_constructor_def EMPTY_OBJECT_def check_hook_def Let_def populate.simps
      generate_def getEmptyObject_def demo_nage_def)

text \<open>
  Claim C2. Every entry in the free list is registered in the map under the pool's own
  name. Both constructors establish this, with or without prepopulation, and every
  method keeps it, whether it returns or throws: \<open>generate\<close>, \<open>reserve\<close>, \<open>release\<close>,
  \<open>clear\<close>, \<open>reset\<close>, and so any sequence of calls.
\<close>

theorem free_list_registered:
  fixes p :: "('w, 'z) Pool_scheme" and q :: "('w, 'y) Nage_scheme"
  shows "(Pool_constructor DEV rnd options (tb, h) = (Inr P, tb', h') \<longrightarrow> registered P)
    \<and> (Nage_constructor DEV rnd options (tb, h) = (Inr N, tb', h') \<longrightarrow> registered N)
    \<and> (registered p \<longrightarrow>
          registered (fst (snd (generate (p, w)))) \<and> registered (fst (snd (reserve (p, w)))) \<and>
          registered (fst (snd (release e (p, w)))) \<and> registered (fst (snd (clear (p, w)))))
    \<and> (registered q \<longrightarrow> registered (fst (snd (reset (q, w)))))
    \<and> (registered (fst s) \<longrightarrow> registered (fst (run ms s)))"
proof (intro conjI impI)
  show "registered P" if "Pool_constructor DEV rnd options (tb, h) = (Inr P, tb', h')"
    using Pool_constructor_InrD [OF that] by (simp add: registered_def)
  show "registered N" if "Nage_constructor DEV rnd options (tb, h) = (Inr N, tb', h')"
    using that by (rule Nage_constructor_registered)
  show "registered (fst (snd (generate (p, w))))" if "registered p"
    using that by (rule generate_registered)
  show "registered (fst (snd (reserve (p, w))))" if "registered p"
    using that by (rule reserve_registered)
  show "registered (fst (snd (release e (p, w))))" if "registered p"
    using that by (rule release_registered)
  show "registered (fst (snd (clear (p, w))))"
    by (rule clear_registered)
  show "registered (fst (snd (reset (q, w))))"
    by (rule reset_registered)
  show "registered (fst (run ms s))" if "registered (fst s)"
    using that by (rule run_registered)
qed

lemma demo_fresh_constructed:
  "Pool_constructor True 7 None (5, \<lparr>nextRef = 0\<rparr>) = (Inr demo_fresh, 6, \<lparr>nextRef = 0\<rparr>)"
  by (simp add: Pool_constructor_def EMPTY_OBJECT_def check_hook_def Let_def demo_fresh_def)

text \<open>
  An instance: the two pools above come out of the constructors, and the invariant holds
  of them and after each method.
\<close>

theorem free_list_registered_witness:
  "Pool_constructor True 7 None (5, \<lparr>nextRef = 0\<rparr>) = (Inr demo_fresh, 6, \<lparr>nextRef = 0\<rparr>)
   \<and> registered demo_fresh
   \<and> Nage_constructor True 7 (Some (EMPTY_OBJECT\<lparr>opt_initialSize := Some 2\<rparr>)) (5, \<lparr>nextRef = 0\<rparr>) =
       (Inr demo_nage, 6, \<lparr>nextRef = 2\<rparr>)
   \<and> registered demo_nage
   \<and> registered (fst (snd (generate (demo_nage, \<lparr>nextRef = 2\<rparr>))))
   \<and> registered (fst (snd (reserve (demo_nage, \<lparr>nextRef = 2\<rparr>))))
   \<and> registered (fst (snd (release (JObject 1) (demo_nage, \<lparr>nextRef = 2\<rparr>))))
   \<and> registered (fst (snd (clear (demo_nage, \<lparr>nextRef = 2\<rparr>))))
   \<and> registered (fst (snd (reset (demo_nage, \<lparr>nextRef = 2\<rparr>))))
   \<and> registered (fst (run [Reserve, Reserve, Reserve, Release (JObject 0), Reset] (demo_nage, \<lparr>nextRef = 2\<rparr>)))"
proof -
  note pool = free_list_registered [where DEV = True and rnd = 7 and options = None and tb = 5
      and h = "\<lparr>nextRef = 0\<rparr>" and P = demo_fresh and tb' = 6 and h' = "\<lparr>nextRef = 0\<rparr>"
      and p = demo_nage and q = demo_nage and w = "\<lparr>nextRef = 2\<rparr>" and e = "JObject 1"
      and s = "(demo_nage, \<lparr>nextRef = 2\<rparr>)"
      and ms = "[Reserve, Reserve, Reserve, Release (JObject 0), Reset]"]
  note nage = free_list_registered [where DEV = True and rnd = 7
      and options = "Some (EMPTY_OBJECT\<lparr>opt_initialSize := Some 2\<rparr>)" and tb = 5
      and h = "\<lparr>nextRef = 0\<rparr>" and N = demo_nage and tb' = 6 and h' = "\<lparr>nextRef = 2\<rparr>"
      and p = demo_nage and q = demo_nage and w = "\<lparr>nextRef = 2\<rparr>" and e = "JObject 1"
      and s = "(demo_nage, \<lparr>nextRef = 2\<rparr>)"
      and ms = "[Reserve, Reserve, Reserve, Release (JObject 0), Reset]"]
  from pool demo_fresh_constructed have r1: "registered demo_fresh" by simp
  from nage demo_nage_constructed have r2: "registered demo_nage" by simp
  from nage r2 have r3: "registered (fst (snd (generate (demo_nage, \<lparr>nextRef = 2\<rparr>))))
   \<and> registered (fst (snd (reserve (demo_nage, \<lparr>nextRef = 2\<rparr>))))
   \<and> registered (fst (snd (release (JObject 1) (demo_nage, \<lparr>nextRef = 2\<rparr>))))
   \<and> registered (fst (snd (clear (demo_nage, \<lparr>nextRef = 2\<rparr>))))
   \<and> registered (fst (snd (reset (demo_nage, \<lparr>nextRef = 2\<rparr>))))
   \<and> registered (fst (run [Reserve, Reserve, Reserve, Release (JObject 0), Reset] (demo_nage, \<lparr>nextRef = 2\<rparr>)))"
    by (simp del: run.simps)
  from demo_fresh_constructed r1 demo_nage_constructed r2 r3 show ?thesis by (intro conjI) simp_all
qed

subsection \<open>Releasing twice\<close>

lemma release_InrD:
  assumes "release e (p, w) = (Inr u, p1, w1)"
  shows "owns p e \<and> owns p1 e \<and> e \<in> set (stack p1) \<and>
         (e \<in> set (stack p) \<longrightarrow> p1 = p \<and> w1 = w) \<and>
         (e \<notin> set (stack p) \<longrightarrow> p1 = p\<lparr>stack := stack p @ [e]\<rparr>)"
  using assms by (cases rule: release_cases [of p e w]) (auto simp: owns_def)

text \<open>
  Claim C3. On a pool that satisfies the invariant of the free list, releasing an entry
  that is already in the free list returns and changes nothing: neither the pool nor
  the world, so the hook has not run and nothing was pushed. Hence when a release has
  returned, releasing the same entry again is such a call, whatever hook the pool has:
  across both calls the entry is pushed at most once, the size grows by at most one, and
  a free list without duplicates stays so.
\<close>

theorem release_twice:
  "(registered p \<and> e \<in> set (stack p) \<longrightarrow> release e (p, w) = (Inr (), p, w))
   \<and> (release e (p, w) = (Inr u, p1, w1) \<longrightarrow>
        release e (p1, w1) = (Inr (), p1, w1)
        \<and> (\<forall>hook. release e (p1\<lparr>onRelease := hook\<rparr>, w1) = (Inr (), p1\<lparr>onRelease := hook\<rparr>, w1))
        \<and> size_pool p1 \<le> size_pool p + 1
        \<and> (e \<in> set (stack p) \<longrightarrow> stack p1 = stack p \<and> w1 = w)
        \<and> (e \<notin> set (stack p) \<longrightarrow> stack p1 = stack p @ [e])
        \<and> (distinct (stack p) \<longrightarrow> distinct (stack p1)))"
proof (intro conjI impI allI)
  show "release e (p, w) = (Inr (), p, w)" if "registered p \<and> e \<in> set (stack p)"
    using that by (simp add: registered_def release_present)
next
  assume first: "release e (p, w) = (Inr u, p1, w1)"
  note facts = release_InrD [OF first]
  from facts show "release e (p1, w1) = (Inr (), p1, w1)"
    by (simp add: release_present)
  show "release e (p1\<lparr>onRelease := hook\<rparr>, w1) = (Inr (), p1\<lparr>onRelease := hook\<rparr>, w1)" for hook
    using facts by (intro release_present) (simp_all add: owns_def)
  from facts show "size_pool p1 \<le> size_pool p + 1"
    by (cases "e \<in> set (stack p)") (simp_all add: size_pool_def)
  from facts show "stack p1 = stack p" and "w1 = w" if "e \<in> set (stack p)"
    using that by simp_all
  from facts show "stack p1 = stack p @ [e]" if "e \<notin> set (stack p)"
    using that by simp
  from facts show "distinct (stack p1)" if "distinct (stack p)"
    using that by (cases "e \<in> set (stack p)") simp_all
qed

text \<open>
  An instance with the counting hook: the first release calls it once and pushes, the
  second leaves the count at 1 and the free list as it is.
\<close>

theorem release_twice_witness:
  "release (JObject 3) (demo_counting, \<lparr>nextRef = 4, calls = 0\<rparr>) =
     (Inr (), demo_counting\<lparr>stack := [JObject 3]\<rparr>, \<lparr>nextRef = 4, calls = 1\<rparr>)
   \<and> registered (demo_counting\<lparr>stack := [JObject 3]\<rparr>)
   \<and> JObject 3 \<in> set (stack (demo_counting\<lparr>stack := [JObject 3]\<rparr>))
   \<and> release (JObject 3) (demo_counting\<lparr>stack := [JObject 3]\<rparr>, \<lparr>nextRef = 4, calls = 1\<rparr>) =
     (Inr (), demo_counting\<lparr>stack := [JObject 3]\<rparr>, \<lparr>nextRef = 4, calls = 1\<rparr>)
   \<and> size_pool (demo_counting\<lparr>stack := [JObject 3]\<rparr>) \<le> size_pool demo_counting + 1"
proof -
  have first: "release (JObject 3) (demo_counting, \<lparr>nextRef = 4, calls = 0\<rparr>) =
     (Inr (), demo_counting\<lparr>stack := [JObject 3]\<rparr>, \<lparr>nextRef = 4, calls = 1\<rparr>)"
    by (simp add: release_def demo_counting_def count_call_def)
  have reg: "registered (demo_counting\<lparr>stack := [JObject 3]\<rparr>)"
    and present: "JObject 3 \<in> set (stack (demo_counting\<lparr>stack := [JObject 3]\<rparr>))"
    by (simp_all add: registered_def owns_def demo_counting_def)
  note twice = release_twice [where p = demo_counting and e = "JObject 3"
      and w = "\<lparr>nextRef = 4, calls = 0\<rparr>" and u = "()"
      and ?p1.0 = "demo_counting\<lparr>stack := [JObject 3]\<rparr>"
      and ?w1.0 = "\<lparr>nextRef = 4, calls = 1\<rparr>"]
  note again = release_twice [where p = "demo_counting\<lparr>stack := [JObject 3]\<rparr>" and e = "JObject 3"
      and w = "\<lparr>nextRef = 4, calls = 1\<rparr>"]
  from twice first have second: "release (JObject 3)
      (demo_counting\<lparr>stack := [JObject 3]\<rparr>, \<lparr>nextRef = 4, calls = 1\<rparr>) =
     (Inr (), demo_counting\<lparr>stack := [JObject 3]\<rparr>, \<lparr>nextRef = 4, calls = 1\<rparr>)"
    and size: "size_pool (demo_counting\<lparr>stack := [JObject 3]\<rparr>) \<le> size_pool demo_counting + 1"
    by simp_all
  from again reg present have "release (JObject 3)
      (demo_counting\<lparr>stack := [JObject 3]\<rparr>, \<lparr>nextRef = 4, calls = 1\<rparr>) =
     (Inr (), demo_counting\<lparr>stack := [JObject 3]\<rparr>, \<lparr>nextRef = 4, calls = 1\<rparr>)"
    by simp
  with first reg present size show ?thesis by (intro conjI)
qed

subsection \<open>Last in, first out\<close>

lemma reserve_empty_InrD:
  assumes "stack p = []" and "reserve (p, w) = (Inr e, p1, w1)"
  shows "\<exists>r. e = JObject r \<and> p1 = p\<lparr>entries := (entries p)(r \<mapsto> name p)\<rparr>"
proof -
  obtain res pg wg where g: "generate (p, w) = (res, pg, wg)" by (cases "generate (p, w)")
  show ?thesis
  proof (cases res)
    case (Inl x)
    with g assms show ?thesis by (simp add: reserve_generate_fails)
  next
    case (Inr entry)
    with g have gi: "generate (p, w) = (Inr entry, pg, wg)" by simp
    from assms reserve_generate [OF assms(1) gi]
    have "after_hook (onReserve p) entry pg wg = (Inr e, p1, w1)" by simp
    from after_hook_InrD [OF this] generate_InrD [OF gi] show ?thesis by auto
  qed
qed

lemma Nage_constructor_no_prepopulation:
  fixes q :: "'u heap_scheme Nage"
  assumes c: "Nage_constructor DEV rnd options (tb, h) = (Inr q, tb', h')"
    and "initialSize q = 0"
  shows "stack q = []"
proof -
  from Nage_constructor_InrD [OF c] obtain this es p1 where
    m: "manufacture (nat (initialSize this)) (this, h) = (es, None, p1, h')"
    and q: "q = p1\<lparr>stack := es, frozen := DEV\<rparr>"
    by auto
  have "initialSize p1 = initialSize this"
    by (subst manufacture_fields [OF m]) simp
  with q assms(2) have "initialSize this = 0" by simp
  with m q show ?thesis by simp
qed

lemma Pool_constructor_no_prepopulation:
  assumes "Pool_constructor DEV rnd options (tb, h) = (Inr p, tb', h')"
  shows "stack p = []"
  using Pool_constructor_InrD [OF assms] by simp

lemma reserve_pop_InrD:
  assumes "stack p \<noteq> []" and "reserve (p, w) = (Inr e, p1, w1)"
  shows "e = last (stack p) \<and> p1 = p\<lparr>stack := butlast (stack p)\<rparr>"
  using assms after_hook_InrD [of "onReserve p" "last (stack p)" "p\<lparr>stack := butlast (stack p)\<rparr>" w e p1 w1]
  by (simp add: reserve_pop)



subsection \<open>Reserve, then release\<close>




subsection \<open>Reset\<close>

lemma manufacture_fail_at:
  "manufacture k s = (es, None, s1) \<Longrightarrow> generate s1 = (Inl e, s2) \<Longrightarrow> k < n \<Longrightarrow>
   manufacture n s = (es, Some e, s2)"
proof (induction k arbitrary: s es n)
  case 0
  then obtain n' where "n = Suc n'" by (cases n) auto
  with 0 show ?case by simp
next
  case (Suc k)
  from Suc.prems(3) obtain n' where n: "n = Suc n'" and lt: "k < n'" by (cases n) auto
  obtain r0 s0 where g: "generate s = (r0, s0)" by (cases "generate s")
  show ?case
  proof (cases r0)
    case (Inl x)
    with g Suc.prems(1) show ?thesis by simp
  next
    case (Inr entry)
    with g Suc.prems(1) obtain es' where m: "manufacture k s0 = (es', None, s1)"
      and es: "es = entry # es'"
      by (auto split: prod.splits)
    from Suc.IH [OF m Suc.prems(2) lt] g Inr es n show ?thesis by simp
  qed
qed

lemma reset_InrD:
  fixes p :: "('w, 'z) Nage_scheme"
  assumes a: "reset (p, w) = (Inr u, p', w')"
  shows "manufacture (nat (initialSize p)) (p, w) = (stack p', None, p'\<lparr>stack := stack p\<rparr>, w')"
    and "reset (p\<lparr>stack := xs\<rparr>, w) = (Inr (), p', w')"
    and "length (stack p') = nat (initialSize p)"
    and "initialSize p = 0 \<Longrightarrow> p' = p\<lparr>stack := []\<rparr> \<and> w' = w"
proof -
  obtain es r p1 w1 where m: "manufacture (nat (initialSize p)) (p, w) = (es, r, p1, w1)"
    by (cases "manufacture (nat (initialSize p)) (p, w)")
  with a have r: "r = None" and p': "p' = p1\<lparr>stack := es\<rparr>" and w': "w' = w1"
    by (auto simp: reset_manufacture split: option.splits)
  from p' have es: "es = stack p'" by simp
  from manufacture_stack [OF m] p' have p1: "p1 = p'\<lparr>stack := stack p\<rparr>" by simp
  from m r es p1 w'
  show "manufacture (nat (initialSize p)) (p, w) = (stack p', None, p'\<lparr>stack := stack p\<rparr>, w')"
    by simp
  show "reset (p\<lparr>stack := xs\<rparr>, w) = (Inr (), p', w')"
    using m r p' w' by (simp add: reset_manufacture manufacture_stack_upd)
  from manufacture_length [OF m] r es show "length (stack p') = nat (initialSize p)"
    by simp
  show "p' = p\<lparr>stack := []\<rparr> \<and> w' = w" if "initialSize p = 0"
    using a that by (auto simp: reset_def Let_def)
qed

lemma Nage_constructor_manufacture:
  fixes q :: "'u heap_scheme Nage"
  assumes c: "Nage_constructor DEV rnd options (tb, h) = (Inr q, tb', h')"
  shows "initialSize q =
             (case options of None \<Rightarrow> 0
              | Some opts \<Rightarrow> (case opt_initialSize opts of None \<Rightarrow> 0 | Some n \<Rightarrow> n))"
    and "\<exists>this. stack this = [] \<and>
                 manufacture (nat (initialSize q)) (this, h) =
                   (stack q, None, q\<lparr>stack := [], frozen := False\<rparr>, h')"
proof -
  from Nage_constructor_InrD [OF c] obtain this es p1 where
    st: "stack this = []" and fr: "frozen this = False"
    and n: "initialSize this =
             (case options of None \<Rightarrow> 0
              | Some opts \<Rightarrow> (case opt_initialSize opts of None \<Rightarrow> 0 | Some n \<Rightarrow> n))"
    and m: "manufacture (nat (initialSize this)) (this, h) = (es, None, p1, h')"
    and q: "q = p1\<lparr>stack := es, frozen := DEV\<rparr>"
    by auto
  note p1 = manufacture_fields [OF m]
  have same: "initialSize p1 = initialSize this" "stack p1 = stack this"
    "frozen p1 = frozen this"
    by (subst p1, simp)+
  show "initialSize q =
             (case options of None \<Rightarrow> 0
              | Some opts \<Rightarrow> (case opt_initialSize opts of None \<Rightarrow> 0 | Some n \<Rightarrow> n))"
    using q same n by simp
  have "p1\<lparr>stack := stack p1, frozen := frozen p1\<rparr> = p1" by simp
  with same st fr have restored: "q\<lparr>stack := [], frozen := False\<rparr> = p1"
    by (simp add: q)
  have "stack this = [] \<and>
                 manufacture (nat (initialSize q)) (this, h) =
                   (stack q, None, q\<lparr>stack := [], frozen := False\<rparr>, h')"
    using st m same unfolding restored by (simp add: q)
  then show "\<exists>this. stack this = [] \<and>
                 manufacture (nat (initialSize q)) (this, h) =
                   (stack q, None, q\<lparr>stack := [], frozen := False\<rparr>, h')"
    by (rule exI)
qed


lemma demo_nage_reset:
  "reset (demo_nage, \<lparr>nextRef = 2\<rparr>) = (Inr (), demo_reset, \<lparr>nextRef = 4\<rparr>)"
  by (simp add: reset_def Let_def populate.simps generate_def getEmptyObject_def
      demo_nage_def demo_reset_def)


text \<open>
  Claim C10. \<open>reset\<close> is not atomic: when the first \<open>i - 1\<close> of the \<open>initialSize\<close> calls
  of \<open>generate\<close> return and the factory throws in call \<open>i\<close>, \<open>reset\<close> throws what the
  factory threw, and the free list holds exactly the \<open>i - 1\<close> entries made before the
  failure, whatever it held before the reset.
\<close>

theorem reset_not_atomic:
  fixes p :: "('w, 'z) Nage_scheme"
  assumes "0 < i" and "int i \<le> initialSize p"
    and "manufacture (i - 1) (p, w) = (es, None, p1, w1)"
    and "create p1 w1 = (Inl v, w2)"
  shows "reset (p, w) = (Inl (Thrown v), p1\<lparr>stack := es\<rparr>, w2)
    \<and> size_pool (p1\<lparr>stack := es\<rparr>) = i - 1
    \<and> (\<forall>xs. reset (p\<lparr>stack := xs\<rparr>, w) = (Inl (Thrown v), p1\<lparr>stack := es\<rparr>, w2))"
proof -
  from assms(4) have g: "generate (p1, w1) = (Inl (Thrown v), p1, w2)"
    by (simp add: generate_def)
  from assms(1,2) have lt: "i - 1 < nat (initialSize p)" by simp
  from manufacture_fail_at [OF assms(3) g lt]
  have m: "manufacture (nat (initialSize p)) (p, w) = (es, Some (Thrown v), p1, w2)" .
  then have r: "reset (p\<lparr>stack := xs\<rparr>, w) = (Inl (Thrown v), p1\<lparr>stack := es\<rparr>, w2)" for xs
    by (simp add: reset_manufacture manufacture_stack_upd)
  from r [of "stack p"] have r0: "reset (p, w) = (Inl (Thrown v), p1\<lparr>stack := es\<rparr>, w2)"
    by simp
  from manufacture_length [OF assms(3)] have "size_pool (p1\<lparr>stack := es\<rparr>) = i - 1"
    by (simp add: size_pool_def)
  with r r0 show ?thesis by simp
qed

text \<open>
  An instance: of three entries to make, the second fails; the pool, of size 2 before,
  is left with the one entry made.
\<close>

theorem reset_not_atomic_witness:
  "(0::nat) < 2 \<and> int 2 \<le> initialSize demo_limited
   \<and> size_pool demo_limited = 2
   \<and> manufacture (2 - 1) (demo_limited, \<lparr>nextRef = 2\<rparr>) =
       ([JObject 2], None,
        demo_limited\<lparr>entries := [0 \<mapsto> pool_name ''nage_'' 5 7, 1 \<mapsto> pool_name ''nage_'' 5 7,
                                   2 \<mapsto> pool_name ''nage_'' 5 7]\<rparr>, \<lparr>nextRef = 3\<rparr>)
   \<and> exhausted_at 3 \<lparr>nextRef = 3\<rparr> = (Inl (JString ''exhausted''), \<lparr>nextRef = 3\<rparr>)
   \<and> reset (demo_limited, \<lparr>nextRef = 2\<rparr>) =
       (Inl (Thrown (JString ''exhausted'')),
        demo_limited\<lparr>entries := [0 \<mapsto> pool_name ''nage_'' 5 7, 1 \<mapsto> pool_name ''nage_'' 5 7,
                                   2 \<mapsto> pool_name ''nage_'' 5 7],
                      stack := [JObject 2]\<rparr>, \<lparr>nextRef = 3\<rparr>)"
proof -
  let ?p1 = "demo_limited\<lparr>entries := [0 \<mapsto> pool_name ''nage_'' 5 7, 1 \<mapsto> pool_name ''nage_'' 5 7,
                                   2 \<mapsto> pool_name ''nage_'' 5 7]\<rparr>"
  have i: "(0::nat) < 2" and n: "int 2 \<le> initialSize demo_limited"
    and size: "size_pool demo_limited = 2"
    by (simp_all add: demo_limited_def demo_nage_def size_pool_def)
  have m: "manufacture (2 - 1) (demo_limited, \<lparr>nextRef = 2\<rparr>) = ([JObject 2], None, ?p1, \<lparr>nextRef = 3\<rparr>)"
    by (simp add: generate_def exhausted_at_def getEmptyObject_def demo_limited_def demo_nage_def)
  have f: "exhausted_at 3 \<lparr>nextRef = 3\<rparr> = (Inl (JString ''exhausted''), \<lparr>nextRef = 3\<rparr>)"
    by (simp add: exhausted_at_def)
  then have c: "create ?p1 \<lparr>nextRef = 3\<rparr> = (Inl (JString ''exhausted''), \<lparr>nextRef = 3\<rparr>)"
    by (simp add: demo_limited_def)
  from reset_not_atomic [OF i n m c]
  have "reset (demo_limited, \<lparr>nextRef = 2\<rparr>) =
       (Inl (Thrown (JString ''exhausted'')), ?p1\<lparr>stack := [JObject 2]\<rparr>, \<lparr>nextRef = 3\<rparr>)"
    by simp
  with i n size m f show ?thesis by simp
qed

subsection \<open>The scenario of the specification\<close>

text \<open>
  Claim C7. For any build mode, counter, random numbers and heap: \<open>new Nage({initialSize: 2})\<close>
  returns a pool \<open>P\<close> of size 2; the first \<open>reserve\<close> returns \<open>a\<close> and leaves size 1, the
  second returns \<open>b\<close> and leaves size 0, the third manufactures \<open>c\<close>, not owned before,
  and leaves size 0; the release of \<open>a\<close> raises the size to 1; an entry reserved from
  a second pool \<open>Q\<close> is rejected with the ownership error, as is any value the pool does
  not own, and the pool, of size 1, and the world are as before the call.
\<close>

theorem scenario:
  fixes h :: "'u heap_scheme"
  shows
  "let n = nextRef h;
       nm = pool_name ''nage_'' tb rnd;
       P = \<lparr>entries = [n \<mapsto> nm, n + 1 \<mapsto> nm], name = nm, create = getEmptyObject,
            onRelease = None, onReserve = None, stack = [JObject n, JObject (n + 1)],
            frozen = DEV, initialSize = 2\<rparr>;
       h2 = h\<lparr>nextRef := n + 2\<rparr>;
       a = JObject (n + 1);
       b = JObject n;
       c = JObject (n + 2);
       P3 = P\<lparr>entries := [n \<mapsto> nm, n + 1 \<mapsto> nm, n + 2 \<mapsto> nm], stack := []\<rparr>;
       h3 = h\<lparr>nextRef := n + 3\<rparr>;
       P4 = P3\<lparr>stack := [a]\<rparr>;
       Q = \<lparr>entries = Map.empty, name = pool_name ''nage_'' (tb + 1) rnd',
            create = getEmptyObject, onRelease = None, onReserve = None, stack = [],
            frozen = DEV, initialSize = 0\<rparr>;
       foreignEntry = JObject (n + 3);
       h4 = h\<lparr>nextRef := n + 4\<rparr>
   in Nage_constructor DEV rnd (Some (EMPTY_OBJECT\<lparr>opt_initialSize := Some 2\<rparr>)) (tb, h) =
        (Inr P, tb + 1, h2)
      \<and> size_pool P = 2
      \<and> reserve (P, h2) = (Inr a, P\<lparr>stack := [b]\<rparr>, h2)
      \<and> size_pool (P\<lparr>stack := [b]\<rparr>) = 1
      \<and> reserve (P\<lparr>stack := [b]\<rparr>, h2) = (Inr b, P\<lparr>stack := []\<rparr>, h2)
      \<and> size_pool (P\<lparr>stack := []\<rparr>) = 0
      \<and> \<not> owns (P\<lparr>stack := []\<rparr>) c
      \<and> reserve (P\<lparr>stack := []\<rparr>, h2) = (Inr c, P3, h3)
      \<and> size_pool P3 = 0
      \<and> release a (P3, h3) = (Inr (), P4, h3)
      \<and> size_pool P4 = 1
      \<and> Nage_constructor DEV rnd' None (tb + 1, h3) = (Inr Q, tb + 2, h3)
      \<and> reserve (Q, h3) = (Inr foreignEntry, Q\<lparr>entries := [n + 3 \<mapsto> name Q]\<rparr>, h4)
      \<and> release foreignEntry (P4, h4) = (Inl OwnershipError, P4, h4)
      \<and> (\<forall>foreign v. \<not> owns P4 foreign \<longrightarrow>
            release foreign (P4, v) = (Inl OwnershipError, P4, v))"
  by (simp add: Let_def Nage_constructor_def EMPTY_OBJECT_def check_hook_def populate.simps
      generate_def getEmptyObject_def size_pool_def reserve_def release_def owns_def)

text \<open>An instance: the scenario from the counter 5 and the empty heap; \<open>null\<close> is foreign.\<close>

theorem scenario_witness:
  "Nage_constructor True 7 (Some (EMPTY_OBJECT\<lparr>opt_initialSize := Some 2\<rparr>)) (5, \<lparr>nextRef = 0\<rparr>) =
     (Inr demo_nage, 6, \<lparr>nextRef = 2\<rparr>)
   \<and> release (JObject 1) (demo_four\<lparr>stack := []\<rparr>, \<lparr>nextRef = 3\<rparr>) = (Inr (), demo_four, \<lparr>nextRef = 3\<rparr>)
   \<and> \<not> owns demo_four JNull
   \<and> release JNull (demo_four, \<lparr>nextRef = 3\<rparr>) = (Inl OwnershipError, demo_four, \<lparr>nextRef = 3\<rparr>)
   \<and> release (JObject 3) (demo_four, \<lparr>nextRef = 4\<rparr>) = (Inl OwnershipError, demo_four, \<lparr>nextRef = 4\<rparr>)
   \<and> size_pool demo_four = 1"
proof -
  have foreign: "\<not> owns demo_four JNull"
    by (simp add: owns_def)
  note run = scenario [where DEV = True and rnd = 7 and rnd' = 8 and tb = 5
      and h = "\<lparr>nextRef = 0\<rparr>", unfolded Let_def]
  from run have built: "Nage_constructor True 7 (Some (EMPTY_OBJECT\<lparr>opt_initialSize := Some 2\<rparr>))
      (5, \<lparr>nextRef = 0\<rparr>) = (Inr demo_nage, 6, \<lparr>nextRef = 2\<rparr>)"
    by (simp add: demo_nage_def eval_nat_numeral)
  from run have released: "release (JObject 1) (demo_four\<lparr>stack := []\<rparr>, \<lparr>nextRef = 3\<rparr>) =
      (Inr (), demo_four, \<lparr>nextRef = 3\<rparr>)"
    and size: "size_pool demo_four = 1"
    and other: "release (JObject 3) (demo_four, \<lparr>nextRef = 4\<rparr>) =
      (Inl OwnershipError, demo_four, \<lparr>nextRef = 4\<rparr>)"
    by (simp_all add: demo_four_def demo_nage_def eval_nat_numeral)
  from run foreign have rejected: "release JNull (demo_four, \<lparr>nextRef = 3\<rparr>) =
      (Inl OwnershipError, demo_four, \<lparr>nextRef = 3\<rparr>)"
    by (simp add: demo_four_def demo_nage_def eval_nat_numeral)
  from built released foreign rejected other size show ?thesis by (intro conjI)
qed

subsection \<open>Validation of the options\<close>

lemma check_hook_invalid: "invalid_hook x \<Longrightarrow> check_hook True msg x = Inl (Error msg)"
  by (cases x) (simp_all add: check_hook_def invalid_hook_def)

lemma check_hook_relaxed: "\<not> is_function x \<Longrightarrow> check_hook False msg x = Inr None"
  by (cases x) (simp_all add: check_hook_def)

lemma check_hook_falsy: "\<not> truthy_prop x \<Longrightarrow> check_hook DEV msg x = Inr None"
  by (simp add: check_hook_def)

lemma check_hook_valid: "\<not> invalid_hook x \<Longrightarrow> \<exists>f. check_hook DEV msg x = Inr f"
  by (cases x) (simp_all add: check_hook_def invalid_hook_def)

lemma Pool_constructor_cong:
  assumes "opt_create a = opt_create b"
    and "check_hook DEV ''onRelease must be a function'' (opt_onRelease a) =
         check_hook DEV ''onRelease must be a function'' (opt_onRelease b)"
    and "check_hook DEV ''onReserve must be a function'' (opt_onReserve a) =
         check_hook DEV ''onReserve must be a function'' (opt_onReserve b)"
  shows "Pool_constructor DEV rnd (Some a) = Pool_constructor DEV rnd (Some b)"
  unfolding Pool_constructor_def option.case Let_def assms by (rule refl)

lemma Nage_constructor_cong:
  assumes "opt_create a = opt_create b" and "opt_initialSize a = opt_initialSize b"
    and "check_hook DEV ''onRelease must be a function'' (opt_onRelease a) =
         check_hook DEV ''onRelease must be a function'' (opt_onRelease b)"
    and "check_hook DEV ''onReserve must be a function'' (opt_onReserve a) =
         check_hook DEV ''onReserve must be a function'' (opt_onReserve b)"
  shows "Nage_constructor DEV rnd (Some a) = Nage_constructor DEV rnd (Some b)"
  unfolding Nage_constructor_def option.case Let_def assms by (rule refl)

lemma constructor_bad_create:
  fixes opts :: "'u heap_scheme Options"
  assumes "\<not> is_function (default_prop getEmptyObject (opt_create opts))"
  shows "Pool_constructor DEV rnd (Some opts) (tb, h) =
           (Inl (Error ''create must be a function''), tb + 1, h)"
    and "Nage_constructor DEV rnd (Some opts) (tb, h) =
           (Inl (Error ''create must be a function''), tb + 1, h)"
  using assms
  by (cases "default_prop getEmptyObject (opt_create opts)";
      simp add: Pool_constructor_def Nage_constructor_def Let_def)+

lemma constructor_bad_onRelease:
  fixes opts :: "'u heap_scheme Options"
  assumes "is_function (default_prop getEmptyObject (opt_create opts))"
    and "invalid_hook (opt_onRelease opts)"
  shows "Pool_constructor True rnd (Some opts) (tb, h) =
           (Inl (Error ''onRelease must be a function''), tb + 1, h)"
    and "Nage_constructor True rnd (Some opts) (tb, h) =
           (Inl (Error ''onRelease must be a function''), tb + 1, h)"
  using assms
  by (cases "default_prop getEmptyObject (opt_create opts)";
      simp add: Pool_constructor_def Nage_constructor_def Let_def check_hook_invalid)+

lemma constructor_bad_onReserve:
  fixes opts :: "'u heap_scheme Options"
  assumes "is_function (default_prop getEmptyObject (opt_create opts))"
    and "\<not> invalid_hook (opt_onRelease opts)"
    and "invalid_hook (opt_onReserve opts)"
  shows "Pool_constructor True rnd (Some opts) (tb, h) =
           (Inl (Error ''onReserve must be a function''), tb + 1, h)"
    and "Nage_constructor True rnd (Some opts) (tb, h) =
           (Inl (Error ''onReserve must be a function''), tb + 1, h)"
proof -
  from check_hook_valid [OF assms(2)] obtain f where
    "check_hook True ''onRelease must be a function'' (opt_onRelease opts) = Inr f" by blast
  with assms(1,3)
  show "Pool_constructor True rnd (Some opts) (tb, h) =
           (Inl (Error ''onReserve must be a function''), tb + 1, h)"
    and "Nage_constructor True rnd (Some opts) (tb, h) =
           (Inl (Error ''onReserve must be a function''), tb + 1, h)"
    by (cases "default_prop getEmptyObject (opt_create opts)";
      simp add: Pool_constructor_def Nage_constructor_def Let_def check_hook_invalid)+
qed

lemma relaxed_onRelease_ignored:
  fixes opts :: "'u heap_scheme Options"
  assumes "\<not> is_function (opt_onRelease opts)"
  shows "Pool_constructor False rnd (Some opts) =
           Pool_constructor False rnd (Some (opts\<lparr>opt_onRelease := Val JUndefined\<rparr>))"
    and "Nage_constructor False rnd (Some opts) =
           Nage_constructor False rnd (Some (opts\<lparr>opt_onRelease := Val JUndefined\<rparr>))"
  using assms
  by (auto intro!: Pool_constructor_cong Nage_constructor_cong simp: check_hook_relaxed)

lemma relaxed_onReserve_ignored:
  fixes opts :: "'u heap_scheme Options"
  assumes "\<not> is_function (opt_onReserve opts)"
  shows "Pool_constructor False rnd (Some opts) =
           Pool_constructor False rnd (Some (opts\<lparr>opt_onReserve := Val JUndefined\<rparr>))"
    and "Nage_constructor False rnd (Some opts) =
           Nage_constructor False rnd (Some (opts\<lparr>opt_onReserve := Val JUndefined\<rparr>))"
  using assms
  by (auto intro!: Pool_constructor_cong Nage_constructor_cong simp: check_hook_relaxed)

lemma Pool_constructor_stores:
  fixes opts :: "'u heap_scheme Options"
  assumes "Pool_constructor DEV rnd (Some opts) (tb, h) = (Inr p, s)"
  shows "check_hook DEV ''onRelease must be a function'' (opt_onRelease opts) = Inr (onRelease p)"
    and "check_hook DEV ''onReserve must be a function'' (opt_onReserve opts) = Inr (onReserve p)"
  using assms
  by (auto simp: Pool_constructor_def Let_def split: propval.splits sum.splits)

lemma Nage_constructor_stores:
  fixes opts :: "'u heap_scheme Options"
  assumes c: "Nage_constructor DEV rnd (Some opts) (tb, h) = (Inr q, tb', h')"
  shows "check_hook DEV ''onRelease must be a function'' (opt_onRelease opts) = Inr (onRelease q)"
    and "check_hook DEV ''onReserve must be a function'' (opt_onReserve opts) = Inr (onReserve q)"
proof -
  from Nage_constructor_InrD [OF c] obtain this es p1 where
    rel: "check_hook DEV ''onRelease must be a function'' (opt_onRelease opts) = Inr (onRelease this)"
    and res: "check_hook DEV ''onReserve must be a function'' (opt_onReserve opts) = Inr (onReserve this)"
    and m: "manufacture (nat (initialSize this)) (this, h) = (es, None, p1, h')"
    and q: "q = p1\<lparr>stack := es, frozen := DEV\<rparr>"
    by auto
  note p1 = manufacture_fields [OF m]
  have "onRelease p1 = onRelease this" "onReserve p1 = onReserve this"
    by (subst p1, simp)+
  with rel res q
  show "check_hook DEV ''onRelease must be a function'' (opt_onRelease opts) = Inr (onRelease q)"
    and "check_hook DEV ''onReserve must be a function'' (opt_onReserve opts) = Inr (onReserve q)"
    by simp_all
qed

lemma strict_invalid_hook_throws:
  fixes opts :: "'u heap_scheme Options"
  assumes bad: "invalid_hook (opt_onRelease opts) \<or> invalid_hook (opt_onReserve opts)"
  shows "\<exists>msg. Pool_constructor True rnd (Some opts) (tb, h) = (Inl (Error msg), tb + 1, h)"
    and "\<exists>msg. Nage_constructor True rnd (Some opts) (tb, h) = (Inl (Error msg), tb + 1, h)"
proof -
  consider (create) "\<not> is_function (default_prop getEmptyObject (opt_create opts))"
    | (release) "is_function (default_prop getEmptyObject (opt_create opts))"
        "invalid_hook (opt_onRelease opts)"
    | (reserve) "is_function (default_prop getEmptyObject (opt_create opts))"
        "\<not> invalid_hook (opt_onRelease opts)" "invalid_hook (opt_onReserve opts)"
    using bad by blast
  note cases = this
  then show "\<exists>msg. Pool_constructor True rnd (Some opts) (tb, h) = (Inl (Error msg), tb + 1, h)"
  proof cases
    case create
    from constructor_bad_create(1) [OF this] show ?thesis by (intro exI)
  next
    case release
    from constructor_bad_onRelease(1) [OF this] show ?thesis by (intro exI)
  next
    case reserve
    from constructor_bad_onReserve(1) [OF this] show ?thesis by (intro exI)
  qed
  from cases show "\<exists>msg. Nage_constructor True rnd (Some opts) (tb, h) = (Inl (Error msg), tb + 1, h)"
  proof cases
    case create
    from constructor_bad_create(2) [OF this] show ?thesis by (intro exI)
  next
    case release
    from constructor_bad_onRelease(2) [OF this] show ?thesis by (intro exI)
  next
    case reserve
    from constructor_bad_onReserve(2) [OF this] show ?thesis by (intro exI)
  qed
qed

lemma relaxed_hook_not_stored:
  fixes opts :: "'u heap_scheme Options"
  shows "\<not> is_function (opt_onRelease opts) \<Longrightarrow>
           Pool_constructor False rnd (Some opts) (tb, h) = (Inr p, s) \<Longrightarrow> onRelease p = None"
    and "\<not> is_function (opt_onRelease opts) \<Longrightarrow>
           Nage_constructor False rnd (Some opts) (tb, h) = (Inr q, s) \<Longrightarrow> onRelease q = None"
    and "\<not> is_function (opt_onReserve opts) \<Longrightarrow>
           Pool_constructor False rnd (Some opts) (tb, h) = (Inr p, s) \<Longrightarrow> onReserve p = None"
    and "\<not> is_function (opt_onReserve opts) \<Longrightarrow>
           Nage_constructor False rnd (Some opts) (tb, h) = (Inr q, s) \<Longrightarrow> onReserve q = None"
proof -
  show "onRelease p = None"
    if "\<not> is_function (opt_onRelease opts)" "Pool_constructor False rnd (Some opts) (tb, h) = (Inr p, s)"
    using Pool_constructor_stores(1) [OF that(2)] check_hook_relaxed [OF that(1)] by simp
  show "onReserve p = None"
    if "\<not> is_function (opt_onReserve opts)" "Pool_constructor False rnd (Some opts) (tb, h) = (Inr p, s)"
    using Pool_constructor_stores(2) [OF that(2)] check_hook_relaxed [OF that(1)] by simp
  show "onRelease q = None"
    if "\<not> is_function (opt_onRelease opts)" "Nage_constructor False rnd (Some opts) (tb, h) = (Inr q, s)"
  proof -
    obtain tb' h' where "s = (tb', h')" by (cases s)
    with that(2) have "Nage_constructor False rnd (Some opts) (tb, h) = (Inr q, tb', h')" by simp
    from Nage_constructor_stores(1) [OF this] check_hook_relaxed [OF that(1)] show ?thesis by simp
  qed
  show "onReserve q = None"
    if "\<not> is_function (opt_onReserve opts)" "Nage_constructor False rnd (Some opts) (tb, h) = (Inr q, s)"
  proof -
    obtain tb' h' where "s = (tb', h')" by (cases s)
    with that(2) have "Nage_constructor False rnd (Some opts) (tb, h) = (Inr q, tb', h')" by simp
    from Nage_constructor_stores(2) [OF this] check_hook_relaxed [OF that(1)] show ?thesis by simp
  qed
qed

text \<open>
  Claim C8 says that an \<open>onRelease\<close> that is provided and not callable makes the
  construction throw in strict mode. With \<open>onRelease: 0\<close> it does not: the validation
  is inside \<open>if (onRelease)\<close>, and the constructor returns the pool.
\<close>

theorem hook_validation_counterexample:
  "Val (JNumber 0) \<noteq> (Val JUndefined :: heap Handler propval)
   \<and> \<not> is_function (Val (JNumber 0) :: heap Handler propval)
   \<and> Pool_constructor True 7 (Some (EMPTY_OBJECT\<lparr>opt_onRelease := Val (JNumber 0)\<rparr>))
       (5, \<lparr>nextRef = 0\<rparr>) = (Inr demo_fresh, 6, \<lparr>nextRef = 0\<rparr>)"
  by (simp add: Pool_constructor_def EMPTY_OBJECT_def check_hook_def Let_def demo_fresh_def)

text \<open>
  Claim C8, amended. In strict mode a hook that is truthy and not callable makes both
  constructors throw an \<open>Error\<close>: the one about \<open>onRelease\<close> when \<open>create\<close> is callable,
  the one about \<open>onReserve\<close> when the \<open>onRelease\<close> given is acceptable too. In relaxed
  mode a hook that is not callable is ignored: the constructor does what it does when
  the hook is left out, and the pool it returns has no such hook to call. A \<open>create\<close>
  that is not callable makes both constructors throw in either mode.
\<close>

theorem hook_validation:
  fixes opts :: "'u heap_scheme Options" and p :: "'u heap_scheme Pool" and q :: "'u heap_scheme Nage"
  shows "(invalid_hook (opt_onRelease opts) \<or> invalid_hook (opt_onReserve opts) \<longrightarrow>
           (\<exists>msg. Pool_constructor True rnd (Some opts) (tb, h) = (Inl (Error msg), tb + 1, h)) \<and>
           (\<exists>msg. Nage_constructor True rnd (Some opts) (tb, h) = (Inl (Error msg), tb + 1, h)))
    \<and> (is_function (default_prop getEmptyObject (opt_create opts)) \<and>
         invalid_hook (opt_onRelease opts) \<longrightarrow>
           Pool_constructor True rnd (Some opts) (tb, h) =
             (Inl (Error ''onRelease must be a function''), tb + 1, h) \<and>
           Nage_constructor True rnd (Some opts) (tb, h) =
             (Inl (Error ''onRelease must be a function''), tb + 1, h))
    \<and> (is_function (default_prop getEmptyObject (opt_create opts)) \<and>
         \<not> invalid_hook (opt_onRelease opts) \<and> invalid_hook (opt_onReserve opts) \<longrightarrow>
           Pool_constructor True rnd (Some opts) (tb, h) =
             (Inl (Error ''onReserve must be a function''), tb + 1, h) \<and>
           Nage_constructor True rnd (Some opts) (tb, h) =
             (Inl (Error ''onReserve must be a function''), tb + 1, h))
    \<and> (\<not> is_function (opt_onRelease opts) \<longrightarrow>
           Pool_constructor False rnd (Some opts) =
             Pool_constructor False rnd (Some (opts\<lparr>opt_onRelease := Val JUndefined\<rparr>)) \<and>
           Nage_constructor False rnd (Some opts) =
             Nage_constructor False rnd (Some (opts\<lparr>opt_onRelease := Val JUndefined\<rparr>)) \<and>
           (Pool_constructor False rnd (Some opts) (tb, h) = (Inr p, s) \<longrightarrow> onRelease p = None) \<and>
           (Nage_constructor False rnd (Some opts) (tb, h) = (Inr q, s) \<longrightarrow> onRelease q = None))
    \<and> (\<not> is_function (opt_onReserve opts) \<longrightarrow>
           Pool_constructor False rnd (Some opts) =
             Pool_constructor False rnd (Some (opts\<lparr>opt_onReserve := Val JUndefined\<rparr>)) \<and>
           Nage_constructor False rnd (Some opts) =
             Nage_constructor False rnd (Some (opts\<lparr>opt_onReserve := Val JUndefined\<rparr>)) \<and>
           (Pool_constructor False rnd (Some opts) (tb, h) = (Inr p, s) \<longrightarrow> onReserve p = None) \<and>
           (Nage_constructor False rnd (Some opts) (tb, h) = (Inr q, s) \<longrightarrow> onReserve q = None))
    \<and> (\<not> is_function (default_prop getEmptyObject (opt_create opts)) \<longrightarrow>
           Pool_constructor DEV rnd (Some opts) (tb, h) =
             (Inl (Error ''create must be a function''), tb + 1, h) \<and>
           Nage_constructor DEV rnd (Some opts) (tb, h) =
             (Inl (Error ''create must be a function''), tb + 1, h))"
proof (intro conjI impI)
  assume bad: "invalid_hook (opt_onRelease opts) \<or> invalid_hook (opt_onReserve opts)"
  from bad show "\<exists>msg. Pool_constructor True rnd (Some opts) (tb, h) = (Inl (Error msg), tb + 1, h)"
    by (rule strict_invalid_hook_throws(1))
  from bad show "\<exists>msg. Nage_constructor True rnd (Some opts) (tb, h) = (Inl (Error msg), tb + 1, h)"
    by (rule strict_invalid_hook_throws(2))
next
  assume a: "is_function (default_prop getEmptyObject (opt_create opts)) \<and>
         invalid_hook (opt_onRelease opts)"
  then show "Pool_constructor True rnd (Some opts) (tb, h) =
             (Inl (Error ''onRelease must be a function''), tb + 1, h)"
    by (simp add: constructor_bad_onRelease)
  from a show "Nage_constructor True rnd (Some opts) (tb, h) =
             (Inl (Error ''onRelease must be a function''), tb + 1, h)"
    by (simp add: constructor_bad_onRelease)
next
  assume a: "is_function (default_prop getEmptyObject (opt_create opts)) \<and>
         \<not> invalid_hook (opt_onRelease opts) \<and> invalid_hook (opt_onReserve opts)"
  then show "Pool_constructor True rnd (Some opts) (tb, h) =
             (Inl (Error ''onReserve must be a function''), tb + 1, h)"
    by (simp add: constructor_bad_onReserve)
  from a show "Nage_constructor True rnd (Some opts) (tb, h) =
             (Inl (Error ''onReserve must be a function''), tb + 1, h)"
    by (simp add: constructor_bad_onReserve)
next
  assume a: "\<not> is_function (opt_onRelease opts)"
  then show "Pool_constructor False rnd (Some opts) =
             Pool_constructor False rnd (Some (opts\<lparr>opt_onRelease := Val JUndefined\<rparr>))"
    by (rule relaxed_onRelease_ignored(1))
  from a show "Nage_constructor False rnd (Some opts) =
             Nage_constructor False rnd (Some (opts\<lparr>opt_onRelease := Val JUndefined\<rparr>))"
    by (rule relaxed_onRelease_ignored(2))
  from a show "onRelease p = None" if "Pool_constructor False rnd (Some opts) (tb, h) = (Inr p, s)"
    using that by (rule relaxed_hook_not_stored(1))
  from a show "onRelease q = None" if "Nage_constructor False rnd (Some opts) (tb, h) = (Inr q, s)"
    using that by (rule relaxed_hook_not_stored(2))
next
  assume a: "\<not> is_function (opt_onReserve opts)"
  then show "Pool_constructor False rnd (Some opts) =
             Pool_constructor False rnd (Some (opts\<lparr>opt_onReserve := Val JUndefined\<rparr>))"
    by (rule relaxed_onReserve_ignored(1))
  from a show "Nage_constructor False rnd (Some opts) =
             Nage_constructor False rnd (Some (opts\<lparr>opt_onReserve := Val JUndefined\<rparr>))"
    by (rule relaxed_onReserve_ignored(2))
  from a show "onReserve p = None" if "Pool_constructor False rnd (Some opts) (tb, h) = (Inr p, s)"
    using that by (rule relaxed_hook_not_stored(3))
  from a show "onReserve q = None" if "Nage_constructor False rnd (Some opts) (tb, h) = (Inr q, s)"
    using that by (rule relaxed_hook_not_stored(4))
next
  assume a: "\<not> is_function (default_prop getEmptyObject (opt_create opts))"
  then show "Pool_constructor DEV rnd (Some opts) (tb, h) =
             (Inl (Error ''create must be a function''), tb + 1, h)"
    by (rule constructor_bad_create(1))
  from a show "Nage_constructor DEV rnd (Some opts) (tb, h) =
             (Inl (Error ''create must be a function''), tb + 1, h)"
    by (rule constructor_bad_create(2))
qed

text \<open>
  An instance: the string \<open>'nope'\<close> as \<open>onRelease\<close>, an object as \<open>onReserve\<close>, \<open>null\<close> as
  \<open>create\<close>.
\<close>

theorem hook_validation_witness:
  "invalid_hook (Val (JString ''nope'') :: heap Handler propval)
   \<and> Pool_constructor True 7 (Some (EMPTY_OBJECT\<lparr>opt_onRelease := Val (JString ''nope'')\<rparr>))
       (5, \<lparr>nextRef = 0\<rparr>) = (Inl (Error ''onRelease must be a function''), 6, \<lparr>nextRef = 0\<rparr>)
   \<and> Nage_constructor True 7 (Some (EMPTY_OBJECT\<lparr>opt_onReserve := Val (JObject 4)\<rparr>))
       (5, \<lparr>nextRef = 0\<rparr>) = (Inl (Error ''onReserve must be a function''), 6, \<lparr>nextRef = 0\<rparr>)
   \<and> Pool_constructor False 7 (Some (EMPTY_OBJECT\<lparr>opt_onRelease := Val (JString ''nope'')\<rparr>))
       (5, \<lparr>nextRef = 0\<rparr>) = (Inr (demo_fresh\<lparr>frozen := False\<rparr>), 6, \<lparr>nextRef = 0\<rparr>)
   \<and> onRelease (demo_fresh\<lparr>frozen := False\<rparr>) = None
   \<and> \<not> is_function (default_prop getEmptyObject (Val JNull :: heap Creator propval))
   \<and> Pool_constructor False 7 (Some (EMPTY_OBJECT\<lparr>opt_create := Val JNull\<rparr>))
       (5, \<lparr>nextRef = 0\<rparr>) = (Inl (Error ''create must be a function''), 6, \<lparr>nextRef = 0\<rparr>)"
proof -
  let ?h = "\<lparr>nextRef = 0\<rparr> :: heap"
  let ?rel = "EMPTY_OBJECT\<lparr>opt_onRelease := Val (JString ''nope'')\<rparr> :: heap Options"
  let ?res = "EMPTY_OBJECT\<lparr>opt_onReserve := Val (JObject 4)\<rparr> :: heap Options"
  let ?cre = "EMPTY_OBJECT\<lparr>opt_create := Val JNull\<rparr> :: heap Options"
  have bad: "invalid_hook (Val (JString ''nope'') :: heap Handler propval)"
    and bad': "invalid_hook (Val (JObject 4) :: heap Handler propval)"
    and nocreate: "\<not> is_function (default_prop getEmptyObject (Val JNull :: heap Creator propval))"
    by (simp_all add: invalid_hook_def)
  have relaxed: "Pool_constructor False 7 (Some ?rel) (5, ?h) =
      (Inr (demo_fresh\<lparr>frozen := False\<rparr>), 6, ?h)"
    by (simp add: Pool_constructor_def EMPTY_OBJECT_def check_hook_def Let_def demo_fresh_def)
  note strict_rel = hook_validation [where opts = ?rel and rnd = 7 and tb = 5 and h = ?h
      and p = "demo_fresh\<lparr>frozen := False\<rparr>" and s = "(6, ?h)"]
  note strict_res = hook_validation [where opts = ?res and rnd = 7 and tb = 5 and h = ?h]
  note any_mode = hook_validation [where opts = ?cre and rnd = 7 and tb = 5 and h = ?h
      and DEV = False]
  from strict_rel bad have r1: "Pool_constructor True 7 (Some ?rel) (5, ?h) =
      (Inl (Error ''onRelease must be a function''), 6, ?h)"
    by (simp add: EMPTY_OBJECT_def)
  from strict_res bad' have r2: "Nage_constructor True 7 (Some ?res) (5, ?h) =
      (Inl (Error ''onReserve must be a function''), 6, ?h)"
    by (simp add: EMPTY_OBJECT_def invalid_hook_def)
  from strict_rel relaxed have r3: "onRelease (demo_fresh\<lparr>frozen := False\<rparr>) = None"
    by (simp add: EMPTY_OBJECT_def)
  from any_mode nocreate have r4: "Pool_constructor False 7 (Some ?cre) (5, ?h) =
      (Inl (Error ''create must be a function''), 6, ?h)"
    by (simp add: EMPTY_OBJECT_def)
  from bad r1 r2 relaxed r3 nocreate r4 show ?thesis by (intro conjI)
qed

text \<open>
  Claim C9. A hook that is falsy is never refused, in either mode: the validation
  returns without an exception and without a hook to store, both constructors do what
  they do when the hook is \<open>undefined\<close>, and with nothing else in the options the pool is
  the default one, with no hooks.
\<close>

theorem falsy_hook_ignored:
  fixes opts :: "'u heap_scheme Options"
  assumes "\<not> truthy v"
  shows "check_hook DEV msg (Val v) = Inr None
    \<and> Pool_constructor DEV rnd (Some (opts\<lparr>opt_onRelease := Val v\<rparr>)) =
        Pool_constructor DEV rnd (Some (opts\<lparr>opt_onRelease := Val JUndefined\<rparr>))
    \<and> Pool_constructor DEV rnd (Some (opts\<lparr>opt_onReserve := Val v\<rparr>)) =
        Pool_constructor DEV rnd (Some (opts\<lparr>opt_onReserve := Val JUndefined\<rparr>))
    \<and> Nage_constructor DEV rnd (Some (opts\<lparr>opt_onRelease := Val v\<rparr>)) =
        Nage_constructor DEV rnd (Some (opts\<lparr>opt_onRelease := Val JUndefined\<rparr>))
    \<and> Nage_constructor DEV rnd (Some (opts\<lparr>opt_onReserve := Val v\<rparr>)) =
        Nage_constructor DEV rnd (Some (opts\<lparr>opt_onReserve := Val JUndefined\<rparr>))
    \<and> Pool_constructor DEV rnd (Some (EMPTY_OBJECT\<lparr>opt_onRelease := Val v, opt_onReserve := Val v\<rparr>))
          (tb, h) =
        (Inr \<lparr>entries = Map.empty, name = pool_name ''pool_'' tb rnd, create = getEmptyObject,
              onRelease = None, onReserve = None, stack = [], frozen = DEV\<rparr>, tb + 1, h)"
proof -
  from assms have falsy: "check_hook DEV m (Val v) = Inr None" for m :: string
    by (simp add: check_hook_def)
  have undef: "check_hook DEV m (Val JUndefined) = Inr None" for m :: string
    by (simp add: check_hook_def)
  have "Pool_constructor DEV rnd (Some (opts\<lparr>opt_onRelease := Val v\<rparr>)) =
        Pool_constructor DEV rnd (Some (opts\<lparr>opt_onRelease := Val JUndefined\<rparr>))"
    by (rule Pool_constructor_cong) (simp_all add: falsy undef)
  moreover have "Pool_constructor DEV rnd (Some (opts\<lparr>opt_onReserve := Val v\<rparr>)) =
        Pool_constructor DEV rnd (Some (opts\<lparr>opt_onReserve := Val JUndefined\<rparr>))"
    by (rule Pool_constructor_cong) (simp_all add: falsy undef)
  moreover have "Nage_constructor DEV rnd (Some (opts\<lparr>opt_onRelease := Val v\<rparr>)) =
        Nage_constructor DEV rnd (Some (opts\<lparr>opt_onRelease := Val JUndefined\<rparr>))"
    by (rule Nage_constructor_cong) (simp_all add: falsy undef)
  moreover have "Nage_constructor DEV rnd (Some (opts\<lparr>opt_onReserve := Val v\<rparr>)) =
        Nage_constructor DEV rnd (Some (opts\<lparr>opt_onReserve := Val JUndefined\<rparr>))"
    by (rule Nage_constructor_cong) (simp_all add: falsy undef)
  moreover have "Pool_constructor DEV rnd (Some (EMPTY_OBJECT\<lparr>opt_onRelease := Val v, opt_onReserve := Val v\<rparr>))
          (tb, h) =
        (Inr \<lparr>entries = Map.empty, name = pool_name ''pool_'' tb rnd, create = getEmptyObject,
              onRelease = None, onReserve = None, stack = [], frozen = DEV\<rparr>, tb + 1, h)"
    by (simp add: Pool_constructor_def EMPTY_OBJECT_def falsy Let_def)
  ultimately show ?thesis using falsy by (intro conjI)
qed

text \<open>An instance: \<open>false\<close> for both hooks in strict mode, and \<open>null\<close> for \<open>onReserve\<close>.\<close>

theorem falsy_hook_ignored_witness:
  "\<not> truthy (JBoolean False) \<and> \<not> truthy (JString []) \<and> \<not> truthy JNull \<and> \<not> truthy (JNumber 0)
   \<and> Pool_constructor True 7 (Some (EMPTY_OBJECT\<lparr>opt_onRelease := Val (JBoolean False),
         opt_onReserve := Val (JBoolean False)\<rparr>)) (5, \<lparr>nextRef = 0\<rparr>) =
       (Inr demo_fresh, 6, \<lparr>nextRef = 0\<rparr>)
   \<and> Nage_constructor True 7 (Some (EMPTY_OBJECT\<lparr>opt_initialSize := Some 2, opt_onReserve := Val JNull\<rparr>))
         (5, \<lparr>nextRef = 0\<rparr>) =
       (Inr demo_nage, 6, \<lparr>nextRef = 2\<rparr>)"
proof -
  have falsy: "\<not> truthy (JBoolean False)" "\<not> truthy (JString [])" "\<not> truthy JNull"
    "\<not> truthy (JNumber 0)"
    by simp_all
  note both = falsy_hook_ignored [OF falsy(1), where DEV = True and rnd = 7 and tb = 5
      and h = "\<lparr>nextRef = 0\<rparr> :: heap" and opts = "EMPTY_OBJECT :: heap Options"
      and msg = "''onRelease must be a function''"]
  from both [THEN conjunct2, THEN conjunct2, THEN conjunct2, THEN conjunct2, THEN conjunct2]
  have pool: "Pool_constructor True 7 (Some (EMPTY_OBJECT\<lparr>opt_onRelease := Val (JBoolean False),
         opt_onReserve := Val (JBoolean False)\<rparr>)) (5, \<lparr>nextRef = 0\<rparr>) =
       (Inr demo_fresh, 6, \<lparr>nextRef = 0\<rparr>)"
    by (simp add: demo_fresh_def)
  note reserve_null = falsy_hook_ignored [OF falsy(3), where DEV = True and rnd = 7 and tb = 5
      and h = "\<lparr>nextRef = 0\<rparr> :: heap"
      and opts = "EMPTY_OBJECT\<lparr>opt_initialSize := Some 2\<rparr> :: heap Options"
      and msg = "''onReserve must be a function''"]
  from reserve_null [THEN conjunct2, THEN conjunct2, THEN conjunct2, THEN conjunct2, THEN conjunct1]
  have "Nage_constructor True 7
        (Some (EMPTY_OBJECT\<lparr>opt_initialSize := Some 2, opt_onReserve := Val JNull\<rparr> :: heap Options)) =
      Nage_constructor True 7 (Some (EMPTY_OBJECT\<lparr>opt_initialSize := Some 2\<rparr>))"
    by (simp add: EMPTY_OBJECT_def)
  with demo_nage_constructed
  have nage: "Nage_constructor True 7 (Some (EMPTY_OBJECT\<lparr>opt_initialSize := Some 2, opt_onReserve := Val JNull\<rparr>))
         (5, \<lparr>nextRef = 0\<rparr>) = (Inr demo_nage, 6, \<lparr>nextRef = 2\<rparr>)"
    by simp
  from falsy pool nage show ?thesis by (intro conjI)
qed

end
